theory Spec2Isabelle
  imports Main "HOL-Library.Word"
begin

unbundle bit_operations_syntax

section \<open>The PEFS directory cache (sys/fs/pefs/pefs_dircache.c)\<close>

text \<open>
  Pointers are addresses (\<open>nat\<close>, \<open>NULL = 0\<close>) into three memories: directory caches,
  cache entries and hash pools.  The intrusive \<open>LIST\<close>s of sys/queue.h are lists of entry
  addresses, head first.  \<open>u_long\<close> is 64 bits wide, \<open>uint32_t\<close> is 32 bits wide.
  The sx lock of a cache and the bucket mutexes are not part of the model: every function
  is a sequential step on the whole state.
\<close>

type_synonym u_long = "64 word"
type_synonym uint32_t = "32 word"
type_synonym ptr = nat

definition NULL :: ptr where
  "NULL = 0"

text \<open>\<open>struct pefs_tkey\<close> is declared in pefs.h; only \<open>ptk_key\<close> is read here.\<close>

record pefs_tkey =
  ptk_key :: ptr
  ptk_tweak :: string

record pefs_dircache_entry =
  pde_dircache :: ptr
  pde_tkey :: pefs_tkey
  pde_gen :: u_long
  pde_namelen :: nat
  pde_name :: string
  pde_namehash :: uint32_t
  pde_encnamelen :: nat
  pde_encname :: string
  pde_encnamehash :: uint32_t

text \<open>
  \<open>pd_flags\<close> holds the two bits \<open>PD_UPDATING\<close> and \<open>PD_SWAPEDHEADS\<close> of
  pefs_dircache.h; each bit is a boolean field.
\<close>

record pefs_dircache =
  pd_pool :: ptr
  pd_gen :: u_long
  pd_UPDATING :: bool
  pd_SWAPEDHEADS :: bool
  pd_heads0 :: "ptr list"
  pd_heads1 :: "ptr list"

record pefs_dircache_pool =
  pdp_tbl :: "ptr list list"
  pdp_enctbl :: "ptr list list"

text \<open>The global variables of the file and the three memories.\<close>

record kstate =
  dircache_buckets :: u_long
  dircache_hashmask :: u_long
  dircache_global_enable :: bool
  dircache_entries :: u_long
  pdp_mem :: "ptr \<Rightarrow> pefs_dircache_pool"
  pd_mem :: "ptr \<Rightarrow> pefs_dircache"
  pde_mem :: "ptr \<Rightarrow> pefs_dircache_entry"

text \<open>
  What the file takes from the kernel and from pefs.h: whether \<open>MPASS\<close> is compiled in
  (\<open>INVARIANTS\<close>), \<open>desiredvnodes\<close>, the hash primitives \<open>pefs_hash_mixptr\<close>,
  \<open>hash32_buf\<close> and \<open>HASHINIT\<close>, the sizes of the two name buffers of an entry, and
  the size of a bucket, \<open>sizeof(struct pefs_dircache_listhead)\<close>.
\<close>

record kenv =
  INVARIANTS :: bool
  desiredvnodes :: u_long
  pefs_hash_mixptr :: "ptr \<Rightarrow> uint32_t"
  hash32_buf :: "string \<Rightarrow> uint32_t \<Rightarrow> uint32_t"
  HASHINIT :: uint32_t
  sizeof_pde_name :: nat
  sizeof_pde_encname :: nat
  sizeof_listhead :: u_long

text \<open>
  The ways a call does not return: the panic of \<open>pefs_dircache_insert\<close>, a failed
  \<open>MPASS\<close>, and a write past the end of an allocation, where the behaviour of the C code is
  undefined.
\<close>

datatype fault = Panic_invalid_file_name_length | MPASS_failed | Write_past_allocation

definition MPASS :: "kenv \<Rightarrow> bool \<Rightarrow> fault + 'a \<Rightarrow> fault + 'a" where
  "MPASS env ex k = (if INVARIANTS env \<and> \<not> ex then Inl MPASS_failed else k)"

definition bindF :: "fault + 'a \<Rightarrow> ('a \<Rightarrow> fault + 'b) \<Rightarrow> fault + 'b" where
  "bindF r f = (case r of Inl e \<Rightarrow> Inl e | Inr x \<Rightarrow> f x)"

subsection \<open>Module initialisation and the hash pool\<close>

definition DIRCACHE_SIZE_MIN :: u_long where
  "DIRCACHE_SIZE_MIN = 512"

definition DIRCACHE_SIZE_DEFAULT :: "kenv \<Rightarrow> u_long" where
  "DIRCACHE_SIZE_DEFAULT env = desiredvnodes env div 8"

text \<open>\<open>flsl\<close> of libkern: the position of the last set bit, counted from 1; 0 for 0.\<close>

fun flsl_nat :: "nat \<Rightarrow> nat" where
  "flsl_nat n = (if n = 0 then 0 else Suc (flsl_nat (n div 2)))"

declare flsl_nat.simps [simp del]

definition flsl :: "u_long \<Rightarrow> nat" where
  "flsl x = flsl_nat (unat x)"

text \<open>\<open>TUNABLE_ULONG_FETCH\<close> stores the tunable when the kernel environment sets it.\<close>

definition TUNABLE_FETCH :: "'a option \<Rightarrow> 'a \<Rightarrow> 'a" where
  "TUNABLE_FETCH tun v = (case tun of None \<Rightarrow> v | Some x \<Rightarrow> x)"

text \<open>
  \<open>malloc(n * sizeof(pdp->pdp_tbl[0]), ...)\<close>: the byte count is computed in \<open>u_long\<close>
  and wraps; the allocation holds as many buckets as fit in that many bytes.
\<close>

definition malloc_heads :: "kenv \<Rightarrow> u_long \<Rightarrow> nat" where
  "malloc_heads env n = unat (n * sizeof_listhead env) div unat (sizeof_listhead env)"

text \<open>
  \<open>pefs_dircache_pool_init\<close> allocates the two tables and runs \<open>LIST_INIT\<close> on the
  buckets \<open>0 .. tbl_size - 1\<close> of each.  When a table holds fewer than \<open>tbl_size\<close>
  buckets the loop writes past its end.
\<close>

definition pefs_dircache_pool_init :: "kenv \<Rightarrow> kstate \<Rightarrow> ptr \<Rightarrow> fault + kstate" where
  "pefs_dircache_pool_init env s pdp =
     (let tbl_size = dircache_hashmask s + 1;
          n_tbl = malloc_heads env tbl_size;
          n_enctbl = malloc_heads env tbl_size
      in if unat tbl_size \<le> n_tbl \<and> unat tbl_size \<le> n_enctbl
         then Inr (s\<lparr>pdp_mem := (pdp_mem s)(pdp :=
                \<lparr>pdp_tbl = replicate (unat tbl_size) [],
                 pdp_enctbl = replicate (unat tbl_size) []\<rparr>)\<rparr>)
         else Inl Write_past_allocation)"

text \<open>
  \<open>pefs_dircache_pool_create\<close>: \<open>dircache_global\<close> is the address of the static pool,
  \<open>pdp\<close> the address that \<open>malloc\<close> returns.
\<close>

definition pefs_dircache_pool_create ::
  "kenv \<Rightarrow> kstate \<Rightarrow> ptr \<Rightarrow> ptr \<Rightarrow> fault + kstate \<times> ptr" where
  "pefs_dircache_pool_create env s dircache_global pdp =
     (if dircache_global_enable s then Inr (s, dircache_global)
      else bindF (pefs_dircache_pool_init env s pdp) (\<lambda>s'. Inr (s', pdp)))"

text \<open>
  \<open>pefs_dircache_init\<close>: \<open>tun_buckets\<close> and \<open>tun_global\<close> are the two tunables,
  \<open>dircache_global\<close> is the address of the static pool.  The mutexes and the two UMA
  zones are not modelled.  The mask is \<open>(1ULL << flsl(dircache_buckets)) - 1\<close>; for a
  count of \<open>2^63\<close> or more the shift is by 64 bits, which C leaves undefined and the word
  shift answers with 0.
\<close>

definition pefs_dircache_init ::
  "kenv \<Rightarrow> u_long option \<Rightarrow> bool option \<Rightarrow> ptr \<Rightarrow> kstate \<Rightarrow> fault + kstate" where
  "pefs_dircache_init env tun_buckets tun_global dircache_global s =
     (let b0 = TUNABLE_FETCH tun_buckets (dircache_buckets s);
          g = TUNABLE_FETCH tun_global (dircache_global_enable s);
          b = (if b0 < DIRCACHE_SIZE_MIN then DIRCACHE_SIZE_DEFAULT env else b0);
          s1 = s\<lparr>dircache_buckets := b,
                 dircache_hashmask := push_bit (flsl b) 1 - 1,
                 dircache_global_enable := g\<rparr>
      in if g then pefs_dircache_pool_init env s1 dircache_global else Inr s1)"

text \<open>The initial values of the file's static variables.\<close>

definition boot_state :: "(ptr \<Rightarrow> pefs_dircache_pool) \<Rightarrow> (ptr \<Rightarrow> pefs_dircache) \<Rightarrow>
    (ptr \<Rightarrow> pefs_dircache_entry) \<Rightarrow> kstate" where
  "boot_state pm dm em =
     \<lparr>dircache_buckets = 0, dircache_hashmask = 0, dircache_global_enable = True,
      dircache_entries = 0, pdp_mem = pm, pd_mem = dm, pde_mem = em\<rparr>"

subsection \<open>Directory caches\<close>

text \<open>
  \<open>DIRCACHE_ACTIVEHEAD\<close> is \<open>pd_heads[off]\<close> and \<open>DIRCACHE_STALEHEAD\<close> is
  \<open>pd_heads[off ^ 1]\<close>, where \<open>off\<close> is 1 when \<open>PD_SWAPEDHEADS\<close> is set and 0 otherwise.
\<close>

definition DIRCACHE_ACTIVEHEAD :: "pefs_dircache \<Rightarrow> ptr list" where
  "DIRCACHE_ACTIVEHEAD pd = (if pd_SWAPEDHEADS pd then pd_heads1 pd else pd_heads0 pd)"

definition DIRCACHE_STALEHEAD :: "pefs_dircache \<Rightarrow> ptr list" where
  "DIRCACHE_STALEHEAD pd = (if pd_SWAPEDHEADS pd then pd_heads0 pd else pd_heads1 pd)"

definition INSERT_ACTIVEHEAD :: "ptr \<Rightarrow> pefs_dircache \<Rightarrow> pefs_dircache" where
  "INSERT_ACTIVEHEAD pde pd =
     (if pd_SWAPEDHEADS pd then pd\<lparr>pd_heads1 := pde # pd_heads1 pd\<rparr>
      else pd\<lparr>pd_heads0 := pde # pd_heads0 pd\<rparr>)"

definition INSERT_STALEHEAD :: "ptr \<Rightarrow> pefs_dircache \<Rightarrow> pefs_dircache" where
  "INSERT_STALEHEAD pde pd =
     (if pd_SWAPEDHEADS pd then pd\<lparr>pd_heads0 := pde # pd_heads0 pd\<rparr>
      else pd\<lparr>pd_heads1 := pde # pd_heads1 pd\<rparr>)"

text \<open>
  \<open>LIST_REMOVE(pde, pde_dir_entry)\<close> unlinks the entry from the directory list it is
  linked in, which is one of the two lists of its cache.
\<close>

definition REMOVE_dir_entry :: "ptr \<Rightarrow> pefs_dircache \<Rightarrow> pefs_dircache" where
  "REMOVE_dir_entry pde pd =
     pd\<lparr>pd_heads0 := remove1 pde (pd_heads0 pd), pd_heads1 := remove1 pde (pd_heads1 pd)\<rparr>"

definition DIRCACHE_ASSERT :: "kenv \<Rightarrow> pefs_dircache \<Rightarrow> fault + 'a \<Rightarrow> fault + 'a" where
  "DIRCACHE_ASSERT env pd k = MPASS env (pd_heads0 pd = [] \<or> pd_heads1 pd = []) k"

text \<open>\<open>DIRCACHE_TBL\<close> and \<open>DIRCACHE_ENCTBL\<close>: the bucket index \<open>hash & dircache_hashmask\<close>.\<close>

definition DIRCACHE_TBL :: "kstate \<Rightarrow> uint32_t \<Rightarrow> nat" where
  "DIRCACHE_TBL s h = unat ((ucast h :: u_long) AND dircache_hashmask s)"

text \<open>
  \<open>pefs_dircache_create\<close>: \<open>pd\<close> is the address that \<open>uma_zalloc\<close> returns; the
  memory is zeroed (\<open>M_ZERO\<close>).
\<close>

definition pefs_dircache_create :: "kstate \<Rightarrow> ptr \<Rightarrow> ptr \<Rightarrow> kstate" where
  "pefs_dircache_create s pd pdp =
     s\<lparr>pd_mem := (pd_mem s)(pd :=
         \<lparr>pd_pool = pdp, pd_gen = 0, pd_UPDATING = False, pd_SWAPEDHEADS = False,
          pd_heads0 = [], pd_heads1 = []\<rparr>)\<rparr>"

definition dircache_hashname :: "kenv \<Rightarrow> ptr \<Rightarrow> string \<Rightarrow> uint32_t" where
  "dircache_hashname env pd buf =
     pefs_hash_mixptr env pd XOR hash32_buf env buf (HASHINIT env * of_nat (length buf))"

text \<open>
  \<open>dircache_entry_free\<close>.  The callers take \<open>pde\<close> from a list of \<open>pd\<close>, so the
  directory list that \<open>LIST_REMOVE\<close> unlinks it from is a list of \<open>pd\<close>; the pool is
  reached through \<open>pde->pde_dircache\<close>, as in the source.  The two bucket removals
  unlink the entry from the bucket of its stored hash.  The release of the key
  (\<open>pefs_key_release\<close>, in another file) does not touch this state.
\<close>

definition dircache_entry_free :: "kenv \<Rightarrow> kstate \<Rightarrow> ptr \<Rightarrow> ptr \<Rightarrow> fault + kstate" where
  "dircache_entry_free env s pd pde =
     MPASS env (pde \<noteq> NULL)
       (let e = pde_mem s pde;
            pdp = pd_pool (pd_mem s (pde_dircache e));
            s1 = s\<lparr>pd_mem := (pd_mem s)(pd := REMOVE_dir_entry pde (pd_mem s pd))\<rparr>;
            i = DIRCACHE_TBL s1 (pde_namehash e);
            p1 = pdp_mem s1 pdp;
            s2 = s1\<lparr>pdp_mem := (pdp_mem s1)(pdp :=
                   p1\<lparr>pdp_tbl := (pdp_tbl p1)[i := remove1 pde (pdp_tbl p1 ! i)]\<rparr>)\<rparr>;
            j = DIRCACHE_TBL s2 (pde_encnamehash e);
            p2 = pdp_mem s2 pdp;
            s3 = s2\<lparr>pdp_mem := (pdp_mem s2)(pdp :=
                   p2\<lparr>pdp_enctbl := (pdp_enctbl p2)[j := remove1 pde (pdp_enctbl p2 ! j)]\<rparr>)\<rparr>
        in Inr (s3\<lparr>dircache_entries := dircache_entries s3 - 1\<rparr>))"

text \<open>
  The loop \<open>while (!LIST_EMPTY(DIRCACHE_STALEHEAD(pd))) dircache_entry_free(LIST_FIRST(...))\<close>
  of \<open>pefs_dircache_purge\<close> and \<open>pefs_dircache_endupdate\<close>, and the same loop over the
  active list.
\<close>

lemma STALEHEAD_entry_free:
  assumes "dircache_entry_free env s pd pde = Inr s'"
    and "DIRCACHE_STALEHEAD (pd_mem s pd) = pde # rest"
  shows "DIRCACHE_STALEHEAD (pd_mem s' pd) = rest"
  using assms
  by (auto simp: dircache_entry_free_def MPASS_def Let_def DIRCACHE_STALEHEAD_def
      REMOVE_dir_entry_def split: if_splits)

lemma ACTIVEHEAD_entry_free:
  assumes "dircache_entry_free env s pd pde = Inr s'"
    and "DIRCACHE_ACTIVEHEAD (pd_mem s pd) = pde # rest"
  shows "DIRCACHE_ACTIVEHEAD (pd_mem s' pd) = rest"
  using assms
  by (auto simp: dircache_entry_free_def MPASS_def Let_def DIRCACHE_ACTIVEHEAD_def
      REMOVE_dir_entry_def split: if_splits)

function free_stale :: "kenv \<Rightarrow> kstate \<Rightarrow> ptr \<Rightarrow> fault + kstate" where
  "free_stale env s pd =
     (case DIRCACHE_STALEHEAD (pd_mem s pd) of
        [] \<Rightarrow> Inr s
      | pde # _ \<Rightarrow>
          (case dircache_entry_free env s pd pde of
             Inl e \<Rightarrow> Inl e
           | Inr s' \<Rightarrow> free_stale env s' pd))"
  by pat_completeness auto
termination
  by (relation "measure (\<lambda>(env, s, pd). length (DIRCACHE_STALEHEAD (pd_mem s pd)))")
     (auto dest: STALEHEAD_entry_free)

function free_active :: "kenv \<Rightarrow> kstate \<Rightarrow> ptr \<Rightarrow> fault + kstate" where
  "free_active env s pd =
     (case DIRCACHE_ACTIVEHEAD (pd_mem s pd) of
        [] \<Rightarrow> Inr s
      | pde # _ \<Rightarrow>
          (case dircache_entry_free env s pd pde of
             Inl e \<Rightarrow> Inl e
           | Inr s' \<Rightarrow> free_active env s' pd))"
  by pat_completeness auto
termination
  by (relation "measure (\<lambda>(env, s, pd). length (DIRCACHE_ACTIVEHEAD (pd_mem s pd)))")
     (auto dest: ACTIVEHEAD_entry_free)

declare free_stale.simps [simp del] free_active.simps [simp del]

definition pefs_dircache_purge :: "kenv \<Rightarrow> kstate \<Rightarrow> ptr \<Rightarrow> fault + kstate" where
  "pefs_dircache_purge env s pd =
     (if pd = NULL then Inr s
      else bindF (free_stale env s pd) (\<lambda>s1. free_active env s1 pd))"

subsection \<open>The generation and update state machine\<close>

text \<open>The relinking loop of \<open>dircache_expire\<close>: every active entry moves to the stale head.\<close>

definition expire_step :: "kstate \<Rightarrow> ptr \<Rightarrow> ptr \<Rightarrow> kstate" where
  "expire_step s pd pde =
     (let s1 = s\<lparr>pde_mem := (pde_mem s)(pde := (pde_mem s pde)\<lparr>pde_gen := 0\<rparr>)\<rparr>;
          s2 = s1\<lparr>pd_mem := (pd_mem s1)(pd := REMOVE_dir_entry pde (pd_mem s1 pd))\<rparr>
      in s2\<lparr>pd_mem := (pd_mem s2)(pd := INSERT_STALEHEAD pde (pd_mem s2 pd))\<rparr>)"

lemma ACTIVEHEAD_expire_step:
  "DIRCACHE_ACTIVEHEAD (pd_mem s pd) = pde # rest \<Longrightarrow>
   DIRCACHE_ACTIVEHEAD (pd_mem (expire_step s pd pde) pd) = rest"
  by (auto simp: expire_step_def Let_def DIRCACHE_ACTIVEHEAD_def REMOVE_dir_entry_def
      INSERT_STALEHEAD_def split: if_splits)

function expire_loop :: "kstate \<Rightarrow> ptr \<Rightarrow> kstate" where
  "expire_loop s pd =
     (case DIRCACHE_ACTIVEHEAD (pd_mem s pd) of
        [] \<Rightarrow> s
      | pde # _ \<Rightarrow> expire_loop (expire_step s pd pde) pd)"
  by pat_completeness auto
termination
  by (relation "measure (\<lambda>(s, pd). length (DIRCACHE_ACTIVEHEAD (pd_mem s pd)))")
     (auto simp: ACTIVEHEAD_expire_step)

declare expire_loop.simps [simp del]

definition dircache_expire :: "kenv \<Rightarrow> kstate \<Rightarrow> ptr \<Rightarrow> fault + kstate" where
  "dircache_expire env s pd =
     (let s1 = s\<lparr>pd_mem := (pd_mem s)(pd := (pd_mem s pd)\<lparr>pd_gen := 0\<rparr>)\<rparr>;
          s2 = (if DIRCACHE_STALEHEAD (pd_mem s1 pd) = []
                then s1\<lparr>pd_mem := (pd_mem s1)(pd :=
                       (pd_mem s1 pd)\<lparr>pd_SWAPEDHEADS := \<not> pd_SWAPEDHEADS (pd_mem s1 pd)\<rparr>)\<rparr>
                else expire_loop s1 pd)
      in MPASS env (DIRCACHE_ACTIVEHEAD (pd_mem s2 pd) = []) (Inr s2))"

text \<open>The state that \<open>dircache_expire\<close> leaves: its closing assertion never fails.\<close>

definition expire_result :: "kstate \<Rightarrow> ptr \<Rightarrow> kstate" where
  "expire_result s pd =
     (let s1 = s\<lparr>pd_mem := (pd_mem s)(pd := (pd_mem s pd)\<lparr>pd_gen := 0\<rparr>)\<rparr>
      in if DIRCACHE_STALEHEAD (pd_mem s1 pd) = []
         then s1\<lparr>pd_mem := (pd_mem s1)(pd :=
                (pd_mem s1 pd)\<lparr>pd_SWAPEDHEADS := \<not> pd_SWAPEDHEADS (pd_mem s1 pd)\<rparr>)\<rparr>
         else expire_loop s1 pd)"

text \<open>\<open>dircache_update(pde, onlist)\<close>; the cache is \<open>pde->pde_dircache\<close>.\<close>

definition dircache_update :: "kenv \<Rightarrow> kstate \<Rightarrow> ptr \<Rightarrow> bool \<Rightarrow> fault + kstate" where
  "dircache_update env s pde onlist =
     (let pd = pde_dircache (pde_mem s pde)
      in if pd_UPDATING (pd_mem s pd) then
           (let s1 = s\<lparr>pde_mem := (pde_mem s)(pde :=
                       (pde_mem s pde)\<lparr>pde_gen := pd_gen (pd_mem s pd)\<rparr>)\<rparr>;
                s2 = (if onlist
                      then s1\<lparr>pd_mem := (pd_mem s1)(pd := REMOVE_dir_entry pde (pd_mem s1 pd))\<rparr>
                      else s1)
            in Inr (s2\<lparr>pd_mem := (pd_mem s2)(pd := INSERT_ACTIVEHEAD pde (pd_mem s2 pd))\<rparr>))
         else if pd_gen (pd_mem s pd) = 0 \<or> pd_gen (pd_mem s pd) \<noteq> pde_gen (pde_mem s pde) then
           bindF (dircache_expire env s pd) (\<lambda>s1.
             let s2 = s1\<lparr>pde_mem := (pde_mem s1)(pde := (pde_mem s1 pde)\<lparr>pde_gen := 0\<rparr>)\<rparr>
             in Inr (if \<not> onlist
                     then s2\<lparr>pd_mem := (pd_mem s2)(pd := INSERT_STALEHEAD pde (pd_mem s2 pd))\<rparr>
                     else s2))
         else Inr s)"

definition pefs_dircache_update :: "kenv \<Rightarrow> kstate \<Rightarrow> ptr \<Rightarrow> fault + kstate" where
  "pefs_dircache_update env s pde = dircache_update env s pde True"

subsection \<open>Entries: insertion and the two lookups\<close>

text \<open>
  \<open>pefs_dircache_insert\<close>: \<open>pde\<close> is the address that \<open>uma_zalloc\<close> returns, zeroed
  (\<open>M_ZERO\<close>); \<open>name_len\<close> and \<open>encname_len\<close> are the lengths of the two strings.
  Taking the key reference (\<open>pefs_key_ref\<close>, in another file) does not touch this state.
\<close>

definition zero_entry :: pefs_dircache_entry where
  "zero_entry =
     \<lparr>pde_dircache = NULL, pde_tkey = \<lparr>ptk_key = NULL, ptk_tweak = []\<rparr>, pde_gen = 0,
      pde_namelen = 0, pde_name = [], pde_namehash = 0,
      pde_encnamelen = 0, pde_encname = [], pde_encnamehash = 0\<rparr>"

definition pefs_dircache_insert ::
  "kenv \<Rightarrow> kstate \<Rightarrow> ptr \<Rightarrow> ptr \<Rightarrow> pefs_tkey \<Rightarrow> string \<Rightarrow> string \<Rightarrow> fault + kstate \<times> ptr" where
  "pefs_dircache_insert env s pde pd ptk name encname =
     MPASS env (ptk_key ptk \<noteq> NULL)
       (if length name = 0 \<or> length name \<ge> sizeof_pde_name env \<or>
           length encname = 0 \<or> length encname \<ge> sizeof_pde_encname env
        then Inl Panic_invalid_file_name_length
        else
          (let e = zero_entry\<lparr>pde_dircache := pd, pde_tkey := ptk,
                     pde_namelen := length name, pde_name := name,
                     pde_namehash := dircache_hashname env pd name,
                     pde_encnamelen := length encname, pde_encname := encname,
                     pde_encnamehash := dircache_hashname env pd encname\<rparr>;
               s0 = s\<lparr>pde_mem := (pde_mem s)(pde := e)\<rparr>
           in bindF (dircache_update env s0 pde False) (\<lambda>s1.
                let pdp = pd_pool (pd_mem s1 pd);
                    e1 = pde_mem s1 pde;
                    i = DIRCACHE_TBL s1 (pde_namehash e1);
                    p1 = pdp_mem s1 pdp;
                    s2 = s1\<lparr>pdp_mem := (pdp_mem s1)(pdp :=
                           p1\<lparr>pdp_tbl := (pdp_tbl p1)[i := pde # pdp_tbl p1 ! i]\<rparr>)\<rparr>;
                    j = DIRCACHE_TBL s2 (pde_encnamehash e1);
                    p2 = pdp_mem s2 pdp;
                    s3 = s2\<lparr>pdp_mem := (pdp_mem s2)(pdp :=
                           p2\<lparr>pdp_enctbl := (pdp_enctbl p2)[j := pde # pdp_enctbl p2 ! j]\<rparr>)\<rparr>
                in Inr (s3\<lparr>dircache_entries := dircache_entries s3 + 1\<rparr>, pde))))"

text \<open>
  The \<open>LIST_FOREACH\<close> scans of the two lookups.  \<open>memcmp\<close> compares the first
  \<open>name_len\<close> bytes of the stored name with the argument.
\<close>

fun lookup_scan :: "kstate \<Rightarrow> ptr \<Rightarrow> uint32_t \<Rightarrow> string \<Rightarrow> ptr list \<Rightarrow> ptr option" where
  "lookup_scan s pd h name [] = None"
| "lookup_scan s pd h name (pde # rest) =
     (if pde_namehash (pde_mem s pde) = h \<and>
         pde_dircache (pde_mem s pde) = pd \<and>
         pde_gen (pde_mem s pde) = pd_gen (pd_mem s pd) \<and>
         pde_namelen (pde_mem s pde) = length name \<and>
         take (length name) (pde_name (pde_mem s pde)) = name
      then Some pde
      else lookup_scan s pd h name rest)"

fun enclookup_scan :: "kstate \<Rightarrow> ptr \<Rightarrow> uint32_t \<Rightarrow> string \<Rightarrow> ptr list \<Rightarrow> ptr option" where
  "enclookup_scan s pd h encname [] = None"
| "enclookup_scan s pd h encname (pde # rest) =
     (if pde_encnamehash (pde_mem s pde) = h \<and>
         pde_dircache (pde_mem s pde) = pd \<and>
         pde_encnamelen (pde_mem s pde) = length encname \<and>
         take (length encname) (pde_encname (pde_mem s pde)) = encname
      then Some pde
      else enclookup_scan s pd h encname rest)"

text \<open>The result is the entry found, or \<open>None\<close> for \<open>NULL\<close>.\<close>

definition pefs_dircache_lookup :: "kenv \<Rightarrow> kstate \<Rightarrow> ptr \<Rightarrow> string \<Rightarrow> fault + ptr option" where
  "pefs_dircache_lookup env s pd name =
     MPASS env (pd \<noteq> NULL)
       (MPASS env (\<not> pd_UPDATING (pd_mem s pd))
          (MPASS env (DIRCACHE_STALEHEAD (pd_mem s pd) = [])
             (let h = dircache_hashname env pd name;
                  bucket = pdp_tbl (pdp_mem s (pd_pool (pd_mem s pd))) ! DIRCACHE_TBL s h
              in Inr (lookup_scan s pd h name bucket))))"

definition pefs_dircache_enclookup :: "kenv \<Rightarrow> kstate \<Rightarrow> ptr \<Rightarrow> string \<Rightarrow> ptr option" where
  "pefs_dircache_enclookup env s pd encname =
     (let h = dircache_hashname env pd encname;
          bucket = pdp_enctbl (pdp_mem s (pd_pool (pd_mem s pd))) ! DIRCACHE_TBL s h
      in enclookup_scan s pd h encname bucket)"

subsection \<open>Update passes\<close>

definition pefs_dircache_beginupdate :: "kenv \<Rightarrow> kstate \<Rightarrow> ptr \<Rightarrow> u_long \<Rightarrow> fault + kstate" where
  "pefs_dircache_beginupdate env s pd gen =
     (if gen \<noteq> 0 \<and> pd_gen (pd_mem s pd) \<noteq> gen then
        bindF (if DIRCACHE_ACTIVEHEAD (pd_mem s pd) \<noteq> []
               then MPASS env (DIRCACHE_STALEHEAD (pd_mem s pd) = []) (dircache_expire env s pd)
               else Inr s) (\<lambda>s1.
          let s2 = s1\<lparr>pd_mem := (pd_mem s1)(pd := (pd_mem s1 pd)\<lparr>pd_gen := gen\<rparr>)\<rparr>;
              s3 = s2\<lparr>pd_mem := (pd_mem s2)(pd := (pd_mem s2 pd)\<lparr>pd_UPDATING := True\<rparr>)\<rparr>
          in MPASS env (DIRCACHE_ACTIVEHEAD (pd_mem s3 pd) = []) (Inr s3))
      else Inr s)"

definition pefs_dircache_abortupdate :: "kenv \<Rightarrow> kstate \<Rightarrow> ptr \<Rightarrow> fault + kstate" where
  "pefs_dircache_abortupdate env s pd =
     bindF (if pd_UPDATING (pd_mem s pd)
            then bindF (dircache_expire env s pd) (\<lambda>s1.
                   Inr (s1\<lparr>pd_mem := (pd_mem s1)(pd := (pd_mem s1 pd)\<lparr>pd_UPDATING := False\<rparr>)\<rparr>))
            else Inr s) (\<lambda>s2.
       DIRCACHE_ASSERT env (pd_mem s2 pd) (Inr s2))"

definition pefs_dircache_endupdate :: "kenv \<Rightarrow> kstate \<Rightarrow> ptr \<Rightarrow> fault + kstate" where
  "pefs_dircache_endupdate env s pd =
     (if \<not> pd_UPDATING (pd_mem s pd) then DIRCACHE_ASSERT env (pd_mem s pd) (Inr s)
      else bindF (free_stale env s pd) (\<lambda>s1.
             Inr (s1\<lparr>pd_mem := (pd_mem s1)(pd := (pd_mem s1 pd)\<lparr>pd_UPDATING := False\<rparr>)\<rparr>)))"

subsection \<open>Well-formed caches\<close>

text \<open>
  The entries linked in one of the two lists of a cache, and the shape that the
  functions above maintain for a cache and its pool: every table has
  \<open>dircache_hashmask + 1\<close> buckets; no entry is linked twice in the directory lists or
  in a bucket; an entry on a list of the cache is allocated and names the cache as its
  owner; an entry of a bucket that names the cache as its owner is on one of the lists of
  the cache and sits in the bucket of its stored hash.
\<close>

definition owned :: "kstate \<Rightarrow> ptr \<Rightarrow> ptr set" where
  "owned s pd = set (pd_heads0 (pd_mem s pd)) \<union> set (pd_heads1 (pd_mem s pd))"

definition pool_ok :: "kstate \<Rightarrow> pefs_dircache_pool \<Rightarrow> bool" where
  "pool_ok s p \<longleftrightarrow>
     length (pdp_tbl p) = Suc (unat (dircache_hashmask s)) \<and>
     length (pdp_enctbl p) = Suc (unat (dircache_hashmask s))"

definition tbl_ok :: "kstate \<Rightarrow> ptr \<Rightarrow> ptr list list \<Rightarrow> (pefs_dircache_entry \<Rightarrow> uint32_t) \<Rightarrow> bool" where
  "tbl_ok s pd tbl hashfield \<longleftrightarrow>
     (\<forall>i < length tbl. distinct (tbl ! i) \<and>
        (\<forall>pde \<in> set (tbl ! i). pde_dircache (pde_mem s pde) = pd \<longrightarrow>
           pde \<in> owned s pd \<and> i = DIRCACHE_TBL s (hashfield (pde_mem s pde))))"

definition cache_inv :: "kstate \<Rightarrow> ptr \<Rightarrow> bool" where
  "cache_inv s pd \<longleftrightarrow>
     distinct (pd_heads0 (pd_mem s pd) @ pd_heads1 (pd_mem s pd)) \<and>
     (\<forall>pde \<in> owned s pd. pde \<noteq> NULL \<and> pde_dircache (pde_mem s pde) = pd) \<and>
     pool_ok s (pdp_mem s (pd_pool (pd_mem s pd))) \<and>
     tbl_ok s pd (pdp_tbl (pdp_mem s (pd_pool (pd_mem s pd)))) pde_namehash \<and>
     tbl_ok s pd (pdp_enctbl (pdp_mem s (pd_pool (pd_mem s pd)))) pde_encnamehash"

text \<open>The invariant that \<open>DIRCACHE_ASSERT\<close> checks, for a cache that is not updating.\<close>

definition idle_inv :: "pefs_dircache \<Rightarrow> bool" where
  "idle_inv pd \<longleftrightarrow> (\<not> pd_UPDATING pd \<longrightarrow> pd_heads0 pd = [] \<or> pd_heads1 pd = [])"

subsection \<open>A concrete configuration\<close>

text \<open>
  A kernel built with \<open>INVARIANTS\<close>, \<open>desiredvnodes = 8192\<close>, a multiplicative pointer
  mix, the \<open>hash32_buf\<close> of sys/hash.h and buckets of 8 bytes; the state that
  \<open>pefs_dircache_init\<close> returns with no tunable set and the global pool at address 1
  (1024 buckets configured, tables of 2048); a cache created at address 7; the same cache
  during an update pass of generation 5.
\<close>

definition example_env :: kenv where
  "example_env =
     \<lparr>INVARIANTS = True, desiredvnodes = 8192,
      pefs_hash_mixptr = (\<lambda>p. of_nat p * 2654435761),
      hash32_buf = (\<lambda>buf h. fold (\<lambda>c x. x * 33 + of_char c) buf h),
      HASHINIT = 5381, sizeof_pde_name = 256, sizeof_pde_encname = 256,
      sizeof_listhead = 8\<rparr>"

definition example_static :: kstate where
  "example_static =
     boot_state (\<lambda>_. \<lparr>pdp_tbl = [], pdp_enctbl = []\<rparr>)
       (\<lambda>_. \<lparr>pd_pool = NULL, pd_gen = 0, pd_UPDATING = False, pd_SWAPEDHEADS = False,
              pd_heads0 = [], pd_heads1 = []\<rparr>)
       (\<lambda>_. zero_entry)"

definition example_boot :: kstate where
  "example_boot =
     example_static\<lparr>dircache_buckets := 1024, dircache_hashmask := 2047,
       dircache_global_enable := True,
       pdp_mem := (pdp_mem example_static)(1 :=
         \<lparr>pdp_tbl = replicate 2048 [], pdp_enctbl = replicate 2048 []\<rparr>)\<rparr>"

definition example_created :: kstate where
  "example_created = pefs_dircache_create example_boot 7 1"

definition example_updating :: kstate where
  "example_updating =
     example_created\<lparr>pd_mem := (pd_mem example_created)(7 :=
        (pd_mem example_created 7)\<lparr>pd_gen := 5, pd_UPDATING := True\<rparr>)\<rparr>"

definition example_tkey :: pefs_tkey where
  "example_tkey = \<lparr>ptk_key = 9, ptk_tweak = []\<rparr>"

text \<open>What the freeing loops leave untouched.\<close>

definition free_frame :: "ptr \<Rightarrow> kstate \<Rightarrow> kstate \<Rightarrow> bool" where
  "free_frame pd s s' \<longleftrightarrow>
     pde_mem s' = pde_mem s \<and> dircache_hashmask s' = dircache_hashmask s \<and>
     (\<forall>pd'. pd' \<noteq> pd \<longrightarrow> pd_mem s' pd' = pd_mem s pd') \<and>
     pd_pool (pd_mem s' pd) = pd_pool (pd_mem s pd) \<and>
     pd_gen (pd_mem s' pd) = pd_gen (pd_mem s pd) \<and>
     pd_UPDATING (pd_mem s' pd) = pd_UPDATING (pd_mem s pd) \<and>
     pd_SWAPEDHEADS (pd_mem s' pd) = pd_SWAPEDHEADS (pd_mem s pd) \<and>
     set (DIRCACHE_ACTIVEHEAD (pd_mem s' pd)) \<subseteq> set (DIRCACHE_ACTIVEHEAD (pd_mem s pd)) \<and>
     set (DIRCACHE_STALEHEAD (pd_mem s' pd)) \<subseteq> set (DIRCACHE_STALEHEAD (pd_mem s pd))"

subsection \<open>The steps of an insertion\<close>

text \<open>
  Names for the three steps of \<open>pefs_dircache_insert\<close>, used to state what it returns:
  the fields written to the zeroed entry, the effect of \<open>dircache_update(pde, 0)\<close> on the
  new entry, and the linking into the two buckets with the counter update.
\<close>

definition entry_init :: "kenv \<Rightarrow> ptr \<Rightarrow> pefs_tkey \<Rightarrow> string \<Rightarrow> string \<Rightarrow> pefs_dircache_entry" where
  "entry_init env pd ptk name encname =
     zero_entry\<lparr>pde_dircache := pd, pde_tkey := ptk,
        pde_namelen := length name, pde_name := name,
        pde_namehash := dircache_hashname env pd name,
        pde_encnamelen := length encname, pde_encname := encname,
        pde_encnamehash := dircache_hashname env pd encname\<rparr>"

definition dir_link :: "kstate \<Rightarrow> ptr \<Rightarrow> ptr \<Rightarrow> kstate" where
  "dir_link s pd pde =
     (if pd_UPDATING (pd_mem s pd)
      then s\<lparr>pde_mem := (pde_mem s)(pde := (pde_mem s pde)\<lparr>pde_gen := pd_gen (pd_mem s pd)\<rparr>),
             pd_mem := (pd_mem s)(pd := INSERT_ACTIVEHEAD pde (pd_mem s pd))\<rparr>
      else (let x = expire_result s pd
            in x\<lparr>pde_mem := (pde_mem x)(pde := (pde_mem x pde)\<lparr>pde_gen := 0\<rparr>),
                 pd_mem := (pd_mem x)(pd := INSERT_STALEHEAD pde (pd_mem x pd))\<rparr>))"

definition hash_link :: "kstate \<Rightarrow> ptr \<Rightarrow> ptr \<Rightarrow> kstate" where
  "hash_link s pd pde =
     (let pdp = pd_pool (pd_mem s pd); p = pdp_mem s pdp;
          i = DIRCACHE_TBL s (pde_namehash (pde_mem s pde));
          j = DIRCACHE_TBL s (pde_encnamehash (pde_mem s pde))
      in s\<lparr>pdp_mem := (pdp_mem s)(pdp :=
             p\<lparr>pdp_tbl := (pdp_tbl p)[i := pde # pdp_tbl p ! i],
               pdp_enctbl := (pdp_enctbl p)[j := pde # pdp_enctbl p ! j]\<rparr>),
           dircache_entries := dircache_entries s + 1\<rparr>)"

text \<open>An address that the allocator may return for a new entry of the cache: not \<open>NULL\<close> and not linked anywhere.\<close>

definition fresh_entry :: "kstate \<Rightarrow> ptr \<Rightarrow> ptr \<Rightarrow> bool" where
  "fresh_entry s pd pde \<longleftrightarrow>
     pde \<noteq> NULL \<and> pde \<notin> owned s pd \<and>
     (\<forall>b \<in> set (pdp_tbl (pdp_mem s (pd_pool (pd_mem s pd)))). pde \<notin> set b) \<and>
     (\<forall>b \<in> set (pdp_enctbl (pdp_mem s (pd_pool (pd_mem s pd)))). pde \<notin> set b)"

text \<open>
  The example continued: the entry at address 3 for the names \<open>foo\<close> and \<open>ABC\<close> inserted
  during the pass, and the cache after the pass has ended.
\<close>

definition example_inserted :: kstate where
  "example_inserted =
     hash_link (dir_link (example_updating\<lparr>pde_mem := (pde_mem example_updating)(3 :=
        entry_init example_env 7 example_tkey ''foo'' ''ABC'')\<rparr>) 7 3) 7 3"

definition example_committed :: kstate where
  "example_committed =
     example_inserted\<lparr>pd_mem := (pd_mem example_inserted)(7 :=
        (pd_mem example_inserted 7)\<lparr>pd_UPDATING := False\<rparr>)\<rparr>"

text \<open>The state that \<open>pefs_dircache_beginupdate\<close> leaves when it opens a pass.\<close>

definition begin_result :: "kstate \<Rightarrow> ptr \<Rightarrow> u_long \<Rightarrow> kstate" where
  "begin_result s pd g =
     (let x = (if DIRCACHE_ACTIVEHEAD (pd_mem s pd) \<noteq> [] then expire_result s pd else s)
      in x\<lparr>pd_mem := (pd_mem x)(pd := (pd_mem x pd)\<lparr>pd_gen := g, pd_UPDATING := True\<rparr>)\<rparr>)"

subsection \<open>The table size of the specification\<close>

text \<open>
  The table size as the specification words it: the configured count clamped to the
  minimum and rounded to the next power of two, the least power of two that is not below
  the clamped count.
\<close>

definition spec_round_pow2 :: "nat \<Rightarrow> nat" where
  "spec_round_pow2 n = 2 ^ flsl_nat (n - 1)"

definition spec_tbl_size :: "u_long \<Rightarrow> nat" where
  "spec_tbl_size count = spec_round_pow2 (max (unat count) (unat DIRCACHE_SIZE_MIN))"

text \<open>A second configuration: a kernel with \<open>desiredvnodes = 800\<close>.\<close>

definition small_env :: kenv where
  "small_env = example_env\<lparr>desiredvnodes := 800\<rparr>"

subsection \<open>The lookup by encrypted name as a search\<close>

text \<open>
  The test that the scan of \<open>pefs_dircache_enclookup\<close> applies to an entry, and the
  bucket that it scans.
\<close>

definition enc_matches :: "kenv \<Rightarrow> kstate \<Rightarrow> ptr \<Rightarrow> string \<Rightarrow> ptr \<Rightarrow> bool" where
  "enc_matches env s pd encname x \<longleftrightarrow>
     pde_encnamehash (pde_mem s x) = dircache_hashname env pd encname \<and>
     pde_dircache (pde_mem s x) = pd \<and>
     pde_encnamelen (pde_mem s x) = length encname \<and>
     take (length encname) (pde_encname (pde_mem s x)) = encname"

definition ENCBUCKET :: "kenv \<Rightarrow> kstate \<Rightarrow> ptr \<Rightarrow> string \<Rightarrow> ptr list" where
  "ENCBUCKET env s pd encname =
     pdp_enctbl (pdp_mem s (pd_pool (pd_mem s pd))) !
       DIRCACHE_TBL s (dircache_hashname env pd encname)"

text \<open>The example with a second entry, at address 4, for the names \<open>bar\<close> and \<open>ABC\<close>.\<close>

definition example_two :: kstate where
  "example_two =
     hash_link (dir_link (example_inserted\<lparr>pde_mem := (pde_mem example_inserted)(4 :=
        entry_init example_env 7 example_tkey ''bar'' ''ABC'')\<rparr>) 7 4) 7 4"

text \<open>What \<open>pefs_dircache_init\<close> returns there for a configured count of 100.\<close>

definition small_boot :: kstate where
  "small_boot =
     example_static\<lparr>dircache_buckets := 100, dircache_hashmask := 127,
       dircache_global_enable := True,
       pdp_mem := (pdp_mem example_static)(1 :=
         \<lparr>pdp_tbl = replicate 128 [], pdp_enctbl = replicate 128 []\<rparr>)\<rparr>"

subsection \<open>The calls made during an update pass\<close>

text \<open>
  Between \<open>pefs_dircache_beginupdate\<close> and \<open>pefs_dircache_endupdate\<close> the caller inserts
  new entries and reconfirms existing ones with \<open>pefs_dircache_update\<close>.  \<open>Insert\<close>
  carries the address that the allocator returns, the key and the two names.
\<close>

datatype pass_op = Insert ptr pefs_tkey string string | Reconfirm ptr

fun run_op :: "kenv \<Rightarrow> kstate \<Rightarrow> ptr \<Rightarrow> pass_op \<Rightarrow> fault + kstate" where
  "run_op env s pd (Insert pde ptk name encname) =
     bindF (pefs_dircache_insert env s pde pd ptk name encname) (\<lambda>r. Inr (fst r))"
| "run_op env s pd (Reconfirm pde) = pefs_dircache_update env s pde"

fun run_ops :: "kenv \<Rightarrow> kstate \<Rightarrow> ptr \<Rightarrow> pass_op list \<Rightarrow> fault + kstate" where
  "run_ops env s pd [] = Inr s"
| "run_ops env s pd (c # cs) = bindF (run_op env s pd c) (\<lambda>s'. run_ops env s' pd cs)"

fun op_entry :: "pass_op \<Rightarrow> ptr" where
  "op_entry (Insert pde ptk name encname) = pde"
| "op_entry (Reconfirm pde) = pde"

text \<open>
  What a call needs: an insertion a new address, a key and names of valid lengths; a
  reconfirmation an entry of the cache.
\<close>

fun op_ok :: "kenv \<Rightarrow> kstate \<Rightarrow> ptr \<Rightarrow> pass_op \<Rightarrow> bool" where
  "op_ok env s pd (Insert pde ptk name encname) \<longleftrightarrow>
     fresh_entry s pd pde \<and> ptk_key ptk \<noteq> NULL \<and>
     0 < length name \<and> length name < sizeof_pde_name env \<and>
     0 < length encname \<and> length encname < sizeof_pde_encname env"
| "op_ok env s pd (Reconfirm pde) \<longleftrightarrow> pde \<in> owned s pd"

text \<open>
  The name test of the scan of \<open>pefs_dircache_lookup\<close>, and the calls that insert or
  reconfirm an entry for a name.
\<close>

definition name_matches :: "kstate \<Rightarrow> string \<Rightarrow> ptr \<Rightarrow> bool" where
  "name_matches s name x \<longleftrightarrow>
     pde_namelen (pde_mem s x) = length name \<and>
     take (length name) (pde_name (pde_mem s x)) = name"

fun op_names :: "kstate \<Rightarrow> string \<Rightarrow> pass_op \<Rightarrow> bool" where
  "op_names s name (Insert pde ptk name' encname) \<longleftrightarrow> name' = name"
| "op_names s name (Reconfirm pde) \<longleftrightarrow> name_matches s name pde"

text \<open>
  A sequence of calls each of which has what it needs and is \<open>allowed\<close> in the state in
  which it is made.
\<close>

fun pass_ok :: "kenv \<Rightarrow> kstate \<Rightarrow> ptr \<Rightarrow> (kstate \<Rightarrow> pass_op \<Rightarrow> bool) \<Rightarrow> pass_op list \<Rightarrow> bool" where
  "pass_ok env s pd allowed [] \<longleftrightarrow> True"
| "pass_ok env s pd allowed (c # cs) \<longleftrightarrow>
     op_ok env s pd c \<and> allowed s c \<and>
     (case run_op env s pd c of Inl e \<Rightarrow> True | Inr s' \<Rightarrow> pass_ok env s' pd allowed cs)"

text \<open>
  The list-to-bucket direction of the linkage, for the table of encrypted names: every
  entry on the lists of the cache has the stored length and the stored hash of its stored
  encrypted name, and is linked in the bucket of that hash.  \<open>pefs_dircache_insert\<close>
  establishes this for the entry it links, and no function unlinks an entry from its
  bucket while it is on a list.
\<close>

definition enc_linked :: "kenv \<Rightarrow> kstate \<Rightarrow> ptr \<Rightarrow> bool" where
  "enc_linked env s pd \<longleftrightarrow>
     (\<forall>x \<in> owned s pd.
        pde_encnamelen (pde_mem s x) = length (pde_encname (pde_mem s x)) \<and>
        pde_encnamehash (pde_mem s x) = dircache_hashname env pd (pde_encname (pde_mem s x)) \<and>
        x \<in> set (pdp_enctbl (pdp_mem s (pd_pool (pd_mem s pd))) !
                   DIRCACHE_TBL s (pde_encnamehash (pde_mem s x))))"

section \<open>Properties\<close>

subsection \<open>Expiry\<close>

lemma expire_step_frame:
  "pdp_mem (expire_step s pd pde) = pdp_mem s"
  "dircache_hashmask (expire_step s pd pde) = dircache_hashmask s"
  "dircache_entries (expire_step s pd pde) = dircache_entries s"
  "dircache_buckets (expire_step s pd pde) = dircache_buckets s"
  "dircache_global_enable (expire_step s pd pde) = dircache_global_enable s"
  "pd' \<noteq> pd \<Longrightarrow> pd_mem (expire_step s pd pde) pd' = pd_mem s pd'"
  "pd_pool (pd_mem (expire_step s pd pde) pd) = pd_pool (pd_mem s pd)"
  "pd_gen (pd_mem (expire_step s pd pde) pd) = pd_gen (pd_mem s pd)"
  "pd_UPDATING (pd_mem (expire_step s pd pde) pd) = pd_UPDATING (pd_mem s pd)"
  "pd_SWAPEDHEADS (pd_mem (expire_step s pd pde) pd) = pd_SWAPEDHEADS (pd_mem s pd)"
  "(pde_mem (expire_step s pd pde) x)\<lparr>pde_gen := g\<rparr> = (pde_mem s x)\<lparr>pde_gen := g\<rparr>"
  by (simp_all add: expire_step_def Let_def REMOVE_dir_entry_def INSERT_STALEHEAD_def)

lemma expire_step_owned:
  "DIRCACHE_ACTIVEHEAD (pd_mem s pd) = pde # rest \<Longrightarrow> owned (expire_step s pd pde) pd = owned s pd"
  by (auto simp: expire_step_def Let_def REMOVE_dir_entry_def INSERT_STALEHEAD_def owned_def
      DIRCACHE_ACTIVEHEAD_def split: if_splits dest: notin_set_remove1)

lemma expire_loop_frame:
  "pdp_mem (expire_loop s pd) = pdp_mem s \<and>
   dircache_hashmask (expire_loop s pd) = dircache_hashmask s \<and>
   dircache_entries (expire_loop s pd) = dircache_entries s \<and>
   dircache_buckets (expire_loop s pd) = dircache_buckets s \<and>
   dircache_global_enable (expire_loop s pd) = dircache_global_enable s \<and>
   (\<forall>pd'. pd' \<noteq> pd \<longrightarrow> pd_mem (expire_loop s pd) pd' = pd_mem s pd') \<and>
   pd_pool (pd_mem (expire_loop s pd) pd) = pd_pool (pd_mem s pd) \<and>
   pd_gen (pd_mem (expire_loop s pd) pd) = pd_gen (pd_mem s pd) \<and>
   pd_UPDATING (pd_mem (expire_loop s pd) pd) = pd_UPDATING (pd_mem s pd) \<and>
   pd_SWAPEDHEADS (pd_mem (expire_loop s pd) pd) = pd_SWAPEDHEADS (pd_mem s pd) \<and>
   (\<forall>x g. (pde_mem (expire_loop s pd) x)\<lparr>pde_gen := g\<rparr> = (pde_mem s x)\<lparr>pde_gen := g\<rparr>) \<and>
   DIRCACHE_ACTIVEHEAD (pd_mem (expire_loop s pd) pd) = [] \<and>
   owned (expire_loop s pd) pd = owned s pd"
proof (induction s pd rule: expire_loop.induct)
  case (1 s pd)
  show ?case
  proof (cases "DIRCACHE_ACTIVEHEAD (pd_mem s pd)")
    case Nil
    then show ?thesis by (simp add: expire_loop.simps [of s pd])
  next
    case (Cons pde rest)
    have eq: "expire_loop s pd = expire_loop (expire_step s pd pde) pd"
      using Cons by (simp add: expire_loop.simps [of s pd])
    show ?thesis
      unfolding eq using "1.IH" [OF Cons] expire_step_owned [OF Cons]
      by (simp add: expire_step_frame)
  qed
qed

lemma expire_loop_fields:
  "pde_dircache (pde_mem (expire_loop s pd) x) = pde_dircache (pde_mem s x)"
  "pde_namehash (pde_mem (expire_loop s pd) x) = pde_namehash (pde_mem s x)"
  "pde_encnamehash (pde_mem (expire_loop s pd) x) = pde_encnamehash (pde_mem s x)"
  "pde_namelen (pde_mem (expire_loop s pd) x) = pde_namelen (pde_mem s x)"
  "pde_name (pde_mem (expire_loop s pd) x) = pde_name (pde_mem s x)"
  "pde_encnamelen (pde_mem (expire_loop s pd) x) = pde_encnamelen (pde_mem s x)"
  "pde_encname (pde_mem (expire_loop s pd) x) = pde_encname (pde_mem s x)"
  "pde_tkey (pde_mem (expire_loop s pd) x) = pde_tkey (pde_mem s x)"
proof -
  have e: "(pde_mem (expire_loop s pd) x)\<lparr>pde_gen := 0\<rparr> = (pde_mem s x)\<lparr>pde_gen := 0\<rparr>"
    using expire_loop_frame [of s pd] by blast
  show "pde_dircache (pde_mem (expire_loop s pd) x) = pde_dircache (pde_mem s x)"
    using arg_cong [OF e, of pde_dircache] by simp
  show "pde_namehash (pde_mem (expire_loop s pd) x) = pde_namehash (pde_mem s x)"
    using arg_cong [OF e, of pde_namehash] by simp
  show "pde_encnamehash (pde_mem (expire_loop s pd) x) = pde_encnamehash (pde_mem s x)"
    using arg_cong [OF e, of pde_encnamehash] by simp
  show "pde_namelen (pde_mem (expire_loop s pd) x) = pde_namelen (pde_mem s x)"
    using arg_cong [OF e, of pde_namelen] by simp
  show "pde_name (pde_mem (expire_loop s pd) x) = pde_name (pde_mem s x)"
    using arg_cong [OF e, of pde_name] by simp
  show "pde_encnamelen (pde_mem (expire_loop s pd) x) = pde_encnamelen (pde_mem s x)"
    using arg_cong [OF e, of pde_encnamelen] by simp
  show "pde_encname (pde_mem (expire_loop s pd) x) = pde_encname (pde_mem s x)"
    using arg_cong [OF e, of pde_encname] by simp
  show "pde_tkey (pde_mem (expire_loop s pd) x) = pde_tkey (pde_mem s x)"
    using arg_cong [OF e, of pde_tkey] by simp
qed

lemma expire_result_active: "DIRCACHE_ACTIVEHEAD (pd_mem (expire_result s pd) pd) = []"
  using expire_loop_frame [of "s\<lparr>pd_mem := (pd_mem s)(pd := (pd_mem s pd)\<lparr>pd_gen := 0\<rparr>)\<rparr>" pd]
  by (auto simp: expire_result_def Let_def DIRCACHE_ACTIVEHEAD_def DIRCACHE_STALEHEAD_def)

lemma dircache_expire_eq: "dircache_expire env s pd = Inr (expire_result s pd)"
  using expire_result_active [of s pd]
  by (simp add: dircache_expire_def expire_result_def Let_def MPASS_def)

lemma expire_result_frame:
  "pdp_mem (expire_result s pd) = pdp_mem s"
  "dircache_hashmask (expire_result s pd) = dircache_hashmask s"
  "dircache_entries (expire_result s pd) = dircache_entries s"
  "dircache_buckets (expire_result s pd) = dircache_buckets s"
  "dircache_global_enable (expire_result s pd) = dircache_global_enable s"
  "pd' \<noteq> pd \<Longrightarrow> pd_mem (expire_result s pd) pd' = pd_mem s pd'"
  "pd_pool (pd_mem (expire_result s pd) pd) = pd_pool (pd_mem s pd)"
  "pd_gen (pd_mem (expire_result s pd) pd) = 0"
  "pd_UPDATING (pd_mem (expire_result s pd) pd) = pd_UPDATING (pd_mem s pd)"
  "owned (expire_result s pd) pd = owned s pd"
  using expire_loop_frame [of "s\<lparr>pd_mem := (pd_mem s)(pd := (pd_mem s pd)\<lparr>pd_gen := 0\<rparr>)\<rparr>" pd]
  by (auto simp: expire_result_def Let_def owned_def)

lemma expire_result_fields:
  "pde_dircache (pde_mem (expire_result s pd) x) = pde_dircache (pde_mem s x)"
  "pde_namehash (pde_mem (expire_result s pd) x) = pde_namehash (pde_mem s x)"
  "pde_encnamehash (pde_mem (expire_result s pd) x) = pde_encnamehash (pde_mem s x)"
  "pde_namelen (pde_mem (expire_result s pd) x) = pde_namelen (pde_mem s x)"
  "pde_name (pde_mem (expire_result s pd) x) = pde_name (pde_mem s x)"
  "pde_encnamelen (pde_mem (expire_result s pd) x) = pde_encnamelen (pde_mem s x)"
  "pde_encname (pde_mem (expire_result s pd) x) = pde_encname (pde_mem s x)"
  "pde_tkey (pde_mem (expire_result s pd) x) = pde_tkey (pde_mem s x)"
  by (simp_all add: expire_result_def Let_def expire_loop_fields)

subsection \<open>List heads\<close>

lemma heads_upd [simp]:
  "DIRCACHE_ACTIVEHEAD (d\<lparr>pd_gen := g\<rparr>) = DIRCACHE_ACTIVEHEAD d"
  "DIRCACHE_ACTIVEHEAD (d\<lparr>pd_UPDATING := u\<rparr>) = DIRCACHE_ACTIVEHEAD d"
  "DIRCACHE_STALEHEAD (d\<lparr>pd_gen := g\<rparr>) = DIRCACHE_STALEHEAD d"
  "DIRCACHE_STALEHEAD (d\<lparr>pd_UPDATING := u\<rparr>) = DIRCACHE_STALEHEAD d"
  "DIRCACHE_ACTIVEHEAD (d\<lparr>pd_SWAPEDHEADS := \<not> pd_SWAPEDHEADS d\<rparr>) = DIRCACHE_STALEHEAD d"
  "DIRCACHE_STALEHEAD (d\<lparr>pd_SWAPEDHEADS := \<not> pd_SWAPEDHEADS d\<rparr>) = DIRCACHE_ACTIVEHEAD d"
  "DIRCACHE_ACTIVEHEAD (INSERT_ACTIVEHEAD x d) = x # DIRCACHE_ACTIVEHEAD d"
  "DIRCACHE_STALEHEAD (INSERT_ACTIVEHEAD x d) = DIRCACHE_STALEHEAD d"
  "DIRCACHE_STALEHEAD (INSERT_STALEHEAD x d) = x # DIRCACHE_STALEHEAD d"
  "DIRCACHE_ACTIVEHEAD (INSERT_STALEHEAD x d) = DIRCACHE_ACTIVEHEAD d"
  "DIRCACHE_ACTIVEHEAD (REMOVE_dir_entry x d) = remove1 x (DIRCACHE_ACTIVEHEAD d)"
  "DIRCACHE_STALEHEAD (REMOVE_dir_entry x d) = remove1 x (DIRCACHE_STALEHEAD d)"
  by (simp_all add: DIRCACHE_ACTIVEHEAD_def DIRCACHE_STALEHEAD_def INSERT_ACTIVEHEAD_def
      INSERT_STALEHEAD_def REMOVE_dir_entry_def)

lemma heads_empty:
  "DIRCACHE_ACTIVEHEAD d = [] \<Longrightarrow> pd_heads0 d = [] \<or> pd_heads1 d = []"
  "DIRCACHE_STALEHEAD d = [] \<Longrightarrow> pd_heads0 d = [] \<or> pd_heads1 d = []"
  by (auto simp: DIRCACHE_ACTIVEHEAD_def DIRCACHE_STALEHEAD_def split: if_splits)

subsection \<open>The configuration of the example\<close>

lemma flsl_1024: "flsl 1024 = 11"
  by (simp add: flsl_def flsl_nat.simps)

lemma example_boot_mask: "dircache_hashmask example_boot = 2047"
  by (simp add: example_boot_def)

lemma example_init:
  "pefs_dircache_init example_env None None 1 example_static = Inr example_boot"
  by (simp add: example_boot_def example_static_def pefs_dircache_init_def boot_state_def
      TUNABLE_FETCH_def DIRCACHE_SIZE_MIN_def DIRCACHE_SIZE_DEFAULT_def example_env_def Let_def
      flsl_1024 pefs_dircache_pool_init_def malloc_heads_def)


subsection \<open>Name lengths at insertion\<close>

lemma insert_valid:
  assumes "ptk_key ptk \<noteq> NULL \<or> \<not> INVARIANTS env"
    and "0 < length name" "length name < sizeof_pde_name env"
    and "0 < length encname" "length encname < sizeof_pde_encname env"
  shows "\<exists>s'. pefs_dircache_insert env s pde pd ptk name encname = Inr (s', pde)"
  using assms
  by (auto simp: pefs_dircache_insert_def MPASS_def Let_def bindF_def dircache_update_def
      dircache_expire_eq)

text \<open>
  Claim C8.  \<open>pefs_dircache_insert\<close> is fatal when the length of the name or of the
  encrypted name is 0 or at least the size of its buffer: the call ends in a fault, which is
  the panic "invalid file name length" whenever the key pointer is not \<open>NULL\<close>.
  When both lengths are non-zero and below the sizes, that panic does not happen and, the
  key pointer not being \<open>NULL\<close>, the call returns the new entry.
\<close>

theorem C8_insert_name_length:
  "(length name = 0 \<or> sizeof_pde_name env \<le> length name \<or>
    length encname = 0 \<or> sizeof_pde_encname env \<le> length encname
      \<longrightarrow> (\<exists>f. pefs_dircache_insert env s pde pd ptk name encname = Inl f) \<and>
          (ptk_key ptk \<noteq> NULL \<longrightarrow>
             pefs_dircache_insert env s pde pd ptk name encname = Inl Panic_invalid_file_name_length)) \<and>
   (0 < length name \<and> length name < sizeof_pde_name env \<and>
    0 < length encname \<and> length encname < sizeof_pde_encname env
      \<longrightarrow> pefs_dircache_insert env s pde pd ptk name encname \<noteq> Inl Panic_invalid_file_name_length \<and>
          (ptk_key ptk \<noteq> NULL \<longrightarrow>
             (\<exists>s'. pefs_dircache_insert env s pde pd ptk name encname = Inr (s', pde))))"
proof (intro conjI impI)
  assume "length name = 0 \<or> sizeof_pde_name env \<le> length name \<or>
    length encname = 0 \<or> sizeof_pde_encname env \<le> length encname"
  then show "\<exists>f. pefs_dircache_insert env s pde pd ptk name encname = Inl f"
    by (auto simp: pefs_dircache_insert_def MPASS_def)
next
  assume "length name = 0 \<or> sizeof_pde_name env \<le> length name \<or>
    length encname = 0 \<or> sizeof_pde_encname env \<le> length encname"
    and "ptk_key ptk \<noteq> NULL"
  then show "pefs_dircache_insert env s pde pd ptk name encname = Inl Panic_invalid_file_name_length"
    by (auto simp: pefs_dircache_insert_def MPASS_def)
next
  assume v: "0 < length name \<and> length name < sizeof_pde_name env \<and>
    0 < length encname \<and> length encname < sizeof_pde_encname env"
  then show "pefs_dircache_insert env s pde pd ptk name encname \<noteq> Inl Panic_invalid_file_name_length"
    by (auto simp: pefs_dircache_insert_def MPASS_def Let_def bindF_def dircache_update_def
      dircache_expire_eq)
  assume "ptk_key ptk \<noteq> NULL"
  with v show "\<exists>s'. pefs_dircache_insert env s pde pd ptk name encname = Inr (s', pde)"
    using insert_valid [of ptk env name encname s pde pd] by simp
qed

theorem C8_insert_name_length_witness:
  "(length ([] :: string) = 0 \<and>
    pefs_dircache_insert example_env example_updating 3 7 example_tkey [] ''ABC''
      = Inl Panic_invalid_file_name_length) \<and>
   (0 < length ''foo'' \<and> length ''foo'' < sizeof_pde_name example_env \<and>
    0 < length ''ABC'' \<and> length ''ABC'' < sizeof_pde_encname example_env \<and>
    (\<exists>s'. pefs_dircache_insert example_env example_updating 3 7 example_tkey ''foo'' ''ABC''
       = Inr (s', 3)))"
  using C8_insert_name_length [of "[]" example_env "''ABC''" example_updating 3 7 example_tkey]
    C8_insert_name_length [of "''foo''" example_env "''ABC''" example_updating 3 7 example_tkey]
  by (simp add: example_env_def example_tkey_def NULL_def)

subsection \<open>Beginning an update pass\<close>

text \<open>
  Claim C6.  Two consecutive calls of \<open>pefs_dircache_beginupdate\<close> with the same
  generation do what one call does: the second call returns the state that the first one
  left, with the generation, the flags and both lists as they were.
\<close>

theorem C6_beginupdate_idempotent:
  "bindF (pefs_dircache_beginupdate env s pd g) (\<lambda>s1. pefs_dircache_beginupdate env s1 pd g)
     = pefs_dircache_beginupdate env s pd g"
  by (auto simp: pefs_dircache_beginupdate_def bindF_def MPASS_def Let_def dircache_expire_eq
      split: sum.splits)

subsection \<open>Aborting an update pass\<close>

text \<open>
  Claim C10.  \<open>pefs_dircache_abortupdate\<close> on a cache that is updating returns with
  the generation of the cache 0 and the cache no longer updating; a following
  \<open>pefs_dircache_beginupdate\<close> with any non-zero generation, the one of the aborted pass
  included, changes the state: the cache is updating again, at that generation.
\<close>

theorem C10_abort_zeroes_generation:
  assumes "pd_UPDATING (pd_mem s pd)"
  shows "\<exists>s1. pefs_dircache_abortupdate env s pd = Inr s1 \<and>
           pd_gen (pd_mem s1 pd) = 0 \<and> \<not> pd_UPDATING (pd_mem s1 pd) \<and>
           (\<forall>g. g \<noteq> 0 \<longrightarrow>
              (\<exists>s2. pefs_dircache_beginupdate env s1 pd g = Inr s2 \<and> s2 \<noteq> s1 \<and>
                 pd_UPDATING (pd_mem s2 pd) \<and> pd_gen (pd_mem s2 pd) = g))"
proof -
  let ?s0 = "expire_result s pd"
  let ?s1 = "?s0\<lparr>pd_mem := (pd_mem ?s0)(pd := (pd_mem ?s0 pd)\<lparr>pd_UPDATING := False\<rparr>)\<rparr>"
  have act: "DIRCACHE_ACTIVEHEAD (pd_mem ?s0 pd) = []"
    by (rule expire_result_active)
  then have act1: "DIRCACHE_ACTIVEHEAD (pd_mem ?s1 pd) = []"
    by simp
  have one: "pd_heads0 (pd_mem ?s0 pd) = [] \<or> pd_heads1 (pd_mem ?s0 pd) = []"
    using act by (rule heads_empty)
  have ab: "pefs_dircache_abortupdate env s pd = Inr ?s1"
    using assms one
    by (simp add: pefs_dircache_abortupdate_def dircache_expire_eq bindF_def
        DIRCACHE_ASSERT_def MPASS_def)
  have gen: "pd_gen (pd_mem ?s1 pd) = 0"
    by (simp add: expire_result_frame)
  have "\<exists>s2. pefs_dircache_beginupdate env ?s1 pd g = Inr s2 \<and> s2 \<noteq> ?s1 \<and>
                 pd_UPDATING (pd_mem s2 pd) \<and> pd_gen (pd_mem s2 pd) = g" if g: "g \<noteq> 0" for g
  proof -
    let ?s2 = "?s1\<lparr>pd_mem := (pd_mem ?s1)(pd := (pd_mem ?s1 pd)\<lparr>pd_gen := g, pd_UPDATING := True\<rparr>)\<rparr>"
    have "pefs_dircache_beginupdate env ?s1 pd g = Inr ?s2"
      using g gen act1 act
      by (simp add: pefs_dircache_beginupdate_def bindF_def MPASS_def Let_def)
    moreover have "pd_UPDATING (pd_mem ?s2 pd)" "pd_gen (pd_mem ?s2 pd) = g" by simp_all
    moreover have "\<not> pd_UPDATING (pd_mem ?s1 pd)" by simp
    ultimately show ?thesis by metis
  qed
  with ab gen show ?thesis by auto
qed

theorem C10_abort_zeroes_generation_witness:
  "pd_UPDATING (pd_mem example_updating 7) \<and>
   (\<exists>s1. pefs_dircache_abortupdate example_env example_updating 7 = Inr s1 \<and>
      pd_gen (pd_mem s1 7) = 0 \<and> \<not> pd_UPDATING (pd_mem s1 7) \<and>
      (\<exists>s2. pefs_dircache_beginupdate example_env s1 7 5 = Inr s2 \<and> s2 \<noteq> s1 \<and>
         pd_UPDATING (pd_mem s2 7) \<and> pd_gen (pd_mem s2 7) = 5))"
proof -
  have u: "pd_UPDATING (pd_mem example_updating 7)"
    by (simp add: example_updating_def)
  from C10_abort_zeroes_generation [OF u, of example_env] obtain s1 where
    "pefs_dircache_abortupdate example_env example_updating 7 = Inr s1"
    "pd_gen (pd_mem s1 7) = 0" "\<not> pd_UPDATING (pd_mem s1 7)"
    "\<forall>g. g \<noteq> 0 \<longrightarrow>
       (\<exists>s2. pefs_dircache_beginupdate example_env s1 7 g = Inr s2 \<and> s2 \<noteq> s1 \<and>
          pd_UPDATING (pd_mem s2 7) \<and> pd_gen (pd_mem s2 7) = g)"
    by blast
  moreover have "(5 :: u_long) \<noteq> 0" by simp
  ultimately show ?thesis using u by blast
qed

subsection \<open>The freeing loops\<close>

lemma dircache_entry_free_eq:
  "dircache_entry_free env s pd pde =
     (if INVARIANTS env \<and> pde = NULL then Inl MPASS_failed
      else (let e = pde_mem s pde; pdp = pd_pool (pd_mem s (pde_dircache e));
                p = pdp_mem s pdp;
                i = DIRCACHE_TBL s (pde_namehash e); j = DIRCACHE_TBL s (pde_encnamehash e)
            in Inr (s\<lparr>pd_mem := (pd_mem s)(pd := REMOVE_dir_entry pde (pd_mem s pd)),
                  pdp_mem := (pdp_mem s)(pdp := p\<lparr>pdp_tbl := (pdp_tbl p)[i := remove1 pde (pdp_tbl p ! i)],
                     pdp_enctbl := (pdp_enctbl p)[j := remove1 pde (pdp_enctbl p ! j)]\<rparr>),
                  dircache_entries := dircache_entries s - 1\<rparr>)))"
  by (simp add: dircache_entry_free_def MPASS_def Let_def DIRCACHE_TBL_def)

lemma REMOVE_dir_entry_fields [simp]:
  "pd_pool (REMOVE_dir_entry x d) = pd_pool d"
  "pd_gen (REMOVE_dir_entry x d) = pd_gen d"
  "pd_UPDATING (REMOVE_dir_entry x d) = pd_UPDATING d"
  "pd_SWAPEDHEADS (REMOVE_dir_entry x d) = pd_SWAPEDHEADS d"
  by (simp_all add: REMOVE_dir_entry_def)

lemma entry_free_frame:
  assumes "dircache_entry_free env s pd pde = Inr s'"
  shows "pd_mem s' = (pd_mem s)(pd := REMOVE_dir_entry pde (pd_mem s pd))"
    and "pde_mem s' = pde_mem s"
    and "dircache_hashmask s' = dircache_hashmask s"
    and "dircache_entries s' = dircache_entries s - 1"
  using assms by (auto simp: dircache_entry_free_eq Let_def split: if_splits)

lemma free_stale_rule:
  assumes "free_stale env s pd = Inr s'" and "P s"
    and "\<And>s pde rest s1. P s \<Longrightarrow> DIRCACHE_STALEHEAD (pd_mem s pd) = pde # rest \<Longrightarrow>
           dircache_entry_free env s pd pde = Inr s1 \<Longrightarrow> P s1"
  shows "P s' \<and> DIRCACHE_STALEHEAD (pd_mem s' pd) = []"
  using assms
proof (induction env s pd rule: free_stale.induct)
  case (1 env s pd)
  show ?case
  proof (cases "DIRCACHE_STALEHEAD (pd_mem s pd)")
    case Nil
    with "1.prems" show ?thesis by (simp add: free_stale.simps [of env s pd])
  next
    case (Cons pde rest)
    with "1.prems"(1) obtain s1 where f: "dircache_entry_free env s pd pde = Inr s1"
      and r: "free_stale env s1 pd = Inr s'"
      by (auto simp: free_stale.simps [of env s pd] split: sum.splits)
    have "P s1" using "1.prems"(3) [OF "1.prems"(2) Cons f] .
    with "1.IH" [OF Cons f r] "1.prems"(3) show ?thesis by blast
  qed
qed

lemma free_active_rule:
  assumes "free_active env s pd = Inr s'" and "P s"
    and "\<And>s pde rest s1. P s \<Longrightarrow> DIRCACHE_ACTIVEHEAD (pd_mem s pd) = pde # rest \<Longrightarrow>
           dircache_entry_free env s pd pde = Inr s1 \<Longrightarrow> P s1"
  shows "P s' \<and> DIRCACHE_ACTIVEHEAD (pd_mem s' pd) = []"
  using assms
proof (induction env s pd rule: free_active.induct)
  case (1 env s pd)
  show ?case
  proof (cases "DIRCACHE_ACTIVEHEAD (pd_mem s pd)")
    case Nil
    with "1.prems" show ?thesis by (simp add: free_active.simps [of env s pd])
  next
    case (Cons pde rest)
    with "1.prems"(1) obtain s1 where f: "dircache_entry_free env s pd pde = Inr s1"
      and r: "free_active env s1 pd = Inr s'"
      by (auto simp: free_active.simps [of env s pd] split: sum.splits)
    have "P s1" using "1.prems"(3) [OF "1.prems"(2) Cons f] .
    with "1.IH" [OF Cons f r] "1.prems"(3) show ?thesis by blast
  qed
qed

lemma free_frame_refl: "free_frame pd s s"
  by (simp add: free_frame_def)

lemma free_frame_step:
  assumes "free_frame pd s0 s" and "dircache_entry_free env s pd pde = Inr s1"
  shows "free_frame pd s0 s1"
  using assms(1) entry_free_frame [OF assms(2)]
  by (auto simp: free_frame_def dest: notin_set_remove1)

lemma free_stale_frame:
  assumes "free_stale env s pd = Inr s'"
  shows "free_frame pd s s' \<and> DIRCACHE_STALEHEAD (pd_mem s' pd) = []"
  by (rule free_stale_rule [OF assms, where P = "free_frame pd s"])
     (auto intro: free_frame_refl free_frame_step)

lemma free_active_frame:
  assumes "free_active env s pd = Inr s'"
  shows "free_frame pd s s' \<and> DIRCACHE_ACTIVEHEAD (pd_mem s' pd) = []"
  by (rule free_active_rule [OF assms, where P = "free_frame pd s"])
     (auto intro: free_frame_refl free_frame_step)

subsection \<open>The invariant of an idle cache\<close>

lemma idle_invI:
  "DIRCACHE_ACTIVEHEAD d = [] \<Longrightarrow> idle_inv d"
  "DIRCACHE_STALEHEAD d = [] \<Longrightarrow> idle_inv d"
  "pd_UPDATING d \<Longrightarrow> idle_inv d"
  by (auto simp: idle_inv_def dest: heads_empty)

lemma INSERT_fields [simp]:
  "pd_pool (INSERT_ACTIVEHEAD x d) = pd_pool d"
  "pd_gen (INSERT_ACTIVEHEAD x d) = pd_gen d"
  "pd_UPDATING (INSERT_ACTIVEHEAD x d) = pd_UPDATING d"
  "pd_SWAPEDHEADS (INSERT_ACTIVEHEAD x d) = pd_SWAPEDHEADS d"
  "pd_pool (INSERT_STALEHEAD x d) = pd_pool d"
  "pd_gen (INSERT_STALEHEAD x d) = pd_gen d"
  "pd_UPDATING (INSERT_STALEHEAD x d) = pd_UPDATING d"
  "pd_SWAPEDHEADS (INSERT_STALEHEAD x d) = pd_SWAPEDHEADS d"
  by (simp_all add: INSERT_ACTIVEHEAD_def INSERT_STALEHEAD_def)

lemma idle_inv_dircache_update:
  assumes "dircache_update env s pde onlist = Inr s'" and "idle_inv (pd_mem s q)"
  shows "idle_inv (pd_mem s' q)"
proof -
  let ?pd = "pde_dircache (pde_mem s pde)"
  let ?x = "expire_result s ?pd"
  have a: "DIRCACHE_ACTIVEHEAD (pd_mem ?x ?pd) = []" by (rule expire_result_active)
  have o: "q \<noteq> ?pd \<Longrightarrow> pd_mem ?x q = pd_mem s q" by (rule expire_result_frame)
  show ?thesis
  proof (cases "q = ?pd")
    case True
    with assms a show ?thesis
      by (auto simp: dircache_update_def Let_def dircache_expire_eq bindF_def
          intro: idle_invI split: if_splits)
  next
    case False
    with assms o show ?thesis
      by (auto simp: dircache_update_def Let_def dircache_expire_eq bindF_def
          split: if_splits)
  qed
qed

lemma idle_inv_insert:
  assumes "pefs_dircache_insert env s pde pd ptk name encname = Inr (s', r)"
    and "idle_inv (pd_mem s q)"
  shows "idle_inv (pd_mem s' q)"
proof -
  let ?e = "zero_entry\<lparr>pde_dircache := pd, pde_tkey := ptk,
                     pde_namelen := length name, pde_name := name,
                     pde_namehash := dircache_hashname env pd name,
                     pde_encnamelen := length encname, pde_encname := encname,
                     pde_encnamehash := dircache_hashname env pd encname\<rparr>"
  let ?s0 = "s\<lparr>pde_mem := (pde_mem s)(pde := ?e)\<rparr>"
  from assms(1) obtain s1 where u: "dircache_update env ?s0 pde False = Inr s1"
    and m: "pd_mem s' = pd_mem s1"
    by (auto simp: pefs_dircache_insert_def MPASS_def Let_def bindF_def
        split: if_splits sum.splits)
  have "idle_inv (pd_mem ?s0 q)" using assms(2) by simp
  from idle_inv_dircache_update [OF u this] m show ?thesis by simp
qed

lemma idle_inv_beginupdate:
  assumes "pefs_dircache_beginupdate env s pd g = Inr s'" and "idle_inv (pd_mem s q)"
  shows "idle_inv (pd_mem s' q)"
proof (cases "q = pd")
  case True
  with assms show ?thesis
    by (auto simp: pefs_dircache_beginupdate_def Let_def dircache_expire_eq bindF_def MPASS_def
        intro: idle_invI split: if_splits)
next
  case False
  with assms expire_result_frame(6) [of q pd s] show ?thesis
    by (auto simp: pefs_dircache_beginupdate_def Let_def dircache_expire_eq bindF_def MPASS_def
        split: if_splits)
qed

lemma idle_inv_abortupdate:
  assumes "pefs_dircache_abortupdate env s pd = Inr s'" and "idle_inv (pd_mem s q)"
  shows "idle_inv (pd_mem s' q)"
proof (cases "q = pd")
  case True
  with assms expire_result_active [of s pd] show ?thesis
    by (auto simp: pefs_dircache_abortupdate_def Let_def dircache_expire_eq bindF_def MPASS_def
        DIRCACHE_ASSERT_def intro: idle_invI split: if_splits)
next
  case False
  with assms expire_result_frame(6) [of q pd s] show ?thesis
    by (auto simp: pefs_dircache_abortupdate_def Let_def dircache_expire_eq bindF_def MPASS_def
        DIRCACHE_ASSERT_def split: if_splits)
qed

lemma idle_inv_endupdate:
  assumes "pefs_dircache_endupdate env s pd = Inr s'" and "idle_inv (pd_mem s q)"
  shows "idle_inv (pd_mem s' q)"
proof (cases "pd_UPDATING (pd_mem s pd)")
  case False
  with assms show ?thesis
    by (auto simp: pefs_dircache_endupdate_def DIRCACHE_ASSERT_def MPASS_def split: if_splits)
next
  case True
  with assms(1) obtain s1 where f: "free_stale env s pd = Inr s1"
    and s': "s' = s1\<lparr>pd_mem := (pd_mem s1)(pd := (pd_mem s1 pd)\<lparr>pd_UPDATING := False\<rparr>)\<rparr>"
    by (auto simp: pefs_dircache_endupdate_def bindF_def split: sum.splits)
  from free_stale_frame [OF f] have fr: "free_frame pd s s1"
    and st: "DIRCACHE_STALEHEAD (pd_mem s1 pd) = []" by simp_all
  show ?thesis
  proof (cases "q = pd")
    case True
    with st s' show ?thesis by (simp add: idle_invI)
  next
    case False
    with fr s' assms(2) show ?thesis by (simp add: free_frame_def)
  qed
qed

lemma purge_heads:
  assumes "pefs_dircache_purge env s pd = Inr s'" and "pd \<noteq> NULL"
  shows "DIRCACHE_STALEHEAD (pd_mem s' pd) = [] \<and> DIRCACHE_ACTIVEHEAD (pd_mem s' pd) = [] \<and>
         (\<exists>s1. free_frame pd s s1 \<and> free_frame pd s1 s')"
proof -
  from assms obtain s1 where f: "free_stale env s pd = Inr s1"
    and g: "free_active env s1 pd = Inr s'"
    by (auto simp: pefs_dircache_purge_def bindF_def split: sum.splits)
  from free_stale_frame [OF f] free_active_frame [OF g] show ?thesis
    by (auto simp: free_frame_def)
qed

lemma idle_inv_purge:
  assumes "pefs_dircache_purge env s pd = Inr s'" and "idle_inv (pd_mem s q)"
  shows "idle_inv (pd_mem s' q)"
proof (cases "pd = NULL")
  case True
  with assms show ?thesis by (simp add: pefs_dircache_purge_def)
next
  case False
  from purge_heads [OF assms(1) False] assms(2) show ?thesis
    by (cases "q = pd") (auto simp: idle_invI free_frame_def)
qed

subsection \<open>The configuration of the example, continued\<close>

lemma example_created_cache:
  "pd_mem example_created 7 =
     \<lparr>pd_pool = 1, pd_gen = 0, pd_UPDATING = False, pd_SWAPEDHEADS = False,
      pd_heads0 = [], pd_heads1 = []\<rparr>"
  by (simp add: example_created_def pefs_dircache_create_def)

lemma example_updating_cache:
  "pd_mem example_updating 7 =
     \<lparr>pd_pool = 1, pd_gen = 5, pd_UPDATING = True, pd_SWAPEDHEADS = False,
      pd_heads0 = [], pd_heads1 = []\<rparr>"
  by (simp add: example_updating_def example_created_cache)

lemma example_beginupdate:
  "pefs_dircache_beginupdate example_env example_created 7 5 = Inr example_updating"
  by (simp add: pefs_dircache_beginupdate_def example_created_cache example_updating_def
      DIRCACHE_ACTIVEHEAD_def bindF_def MPASS_def Let_def)

text \<open>
  Claim C5.  A cache that is not updating has at most one of its two lists non-empty
  (\<open>idle_inv\<close>, the assertion \<open>DIRCACHE_ASSERT\<close>): a created cache satisfies it, and
  insertion, update of an entry, the begin, abort and end of a pass and purge keep it for
  every cache.  An aborted pass leaves the cache idle with its active list empty, an ended
  pass leaves it idle with its stale list empty, and purge leaves both lists empty.
\<close>

theorem C5_idle_invariant:
  "idle_inv (pd_mem (pefs_dircache_create s pd pdp) pd) \<and>
   (idle_inv (pd_mem s q) \<longrightarrow> idle_inv (pd_mem (pefs_dircache_create s pd pdp) q)) \<and>
   (idle_inv (pd_mem s q) \<and> pefs_dircache_insert env s pde pd ptk name encname = Inr (s', r)
      \<longrightarrow> idle_inv (pd_mem s' q)) \<and>
   (idle_inv (pd_mem s q) \<and> pefs_dircache_update env s pde = Inr s'
      \<longrightarrow> idle_inv (pd_mem s' q)) \<and>
   (idle_inv (pd_mem s q) \<and> pefs_dircache_beginupdate env s pd g = Inr s'
      \<longrightarrow> idle_inv (pd_mem s' q)) \<and>
   (idle_inv (pd_mem s q) \<and> pefs_dircache_abortupdate env s pd = Inr s'
      \<longrightarrow> idle_inv (pd_mem s' q)) \<and>
   (idle_inv (pd_mem s q) \<and> pefs_dircache_endupdate env s pd = Inr s'
      \<longrightarrow> idle_inv (pd_mem s' q)) \<and>
   (idle_inv (pd_mem s q) \<and> pefs_dircache_purge env s pd = Inr s'
      \<longrightarrow> idle_inv (pd_mem s' q)) \<and>
   (pd_UPDATING (pd_mem s pd) \<and> pefs_dircache_abortupdate env s pd = Inr s'
      \<longrightarrow> \<not> pd_UPDATING (pd_mem s' pd) \<and> DIRCACHE_ACTIVEHEAD (pd_mem s' pd) = []) \<and>
   (pd_UPDATING (pd_mem s pd) \<and> pefs_dircache_endupdate env s pd = Inr s'
      \<longrightarrow> \<not> pd_UPDATING (pd_mem s' pd) \<and> DIRCACHE_STALEHEAD (pd_mem s' pd) = []) \<and>
   (pd \<noteq> NULL \<and> pefs_dircache_purge env s pd = Inr s'
      \<longrightarrow> pd_heads0 (pd_mem s' pd) = [] \<and> pd_heads1 (pd_mem s' pd) = [])"
proof (intro conjI impI; (elim conjE)?)
  show "idle_inv (pd_mem (pefs_dircache_create s pd pdp) pd)"
    by (simp add: pefs_dircache_create_def idle_inv_def)
  show "idle_inv (pd_mem (pefs_dircache_create s pd pdp) q)" if "idle_inv (pd_mem s q)"
    using that by (simp add: pefs_dircache_create_def idle_inv_def)
  show "idle_inv (pd_mem s' q)"
    if "idle_inv (pd_mem s q)" "pefs_dircache_insert env s pde pd ptk name encname = Inr (s', r)"
    using that by (rule idle_inv_insert [rotated])
  show "idle_inv (pd_mem s' q)"
    if "idle_inv (pd_mem s q)" "pefs_dircache_update env s pde = Inr s'"
    using that unfolding pefs_dircache_update_def by (rule idle_inv_dircache_update [rotated])
  show "idle_inv (pd_mem s' q)"
    if "idle_inv (pd_mem s q)" "pefs_dircache_beginupdate env s pd g = Inr s'"
    using that by (rule idle_inv_beginupdate [rotated])
  show "idle_inv (pd_mem s' q)"
    if "idle_inv (pd_mem s q)" "pefs_dircache_abortupdate env s pd = Inr s'"
    using that by (rule idle_inv_abortupdate [rotated])
  show "idle_inv (pd_mem s' q)"
    if "idle_inv (pd_mem s q)" "pefs_dircache_endupdate env s pd = Inr s'"
    using that by (rule idle_inv_endupdate [rotated])
  show "idle_inv (pd_mem s' q)"
    if "idle_inv (pd_mem s q)" "pefs_dircache_purge env s pd = Inr s'"
    using that by (rule idle_inv_purge [rotated])
  show "\<not> pd_UPDATING (pd_mem s' pd)" "DIRCACHE_ACTIVEHEAD (pd_mem s' pd) = []"
    if "pd_UPDATING (pd_mem s pd)" "pefs_dircache_abortupdate env s pd = Inr s'"
    using that expire_result_active [of s pd]
    by (auto simp: pefs_dircache_abortupdate_def dircache_expire_eq bindF_def MPASS_def
        DIRCACHE_ASSERT_def split: if_splits)
  show "\<not> pd_UPDATING (pd_mem s' pd)" "DIRCACHE_STALEHEAD (pd_mem s' pd) = []"
    if "pd_UPDATING (pd_mem s pd)" "pefs_dircache_endupdate env s pd = Inr s'"
    using that
    by (auto simp: pefs_dircache_endupdate_def bindF_def split: sum.splits
        dest: free_stale_frame)
  show "pd_heads0 (pd_mem s' pd) = []" "pd_heads1 (pd_mem s' pd) = []"
    if "pd \<noteq> NULL" "pefs_dircache_purge env s pd = Inr s'"
    using purge_heads [OF that(2,1)]
    by (auto simp: DIRCACHE_ACTIVEHEAD_def DIRCACHE_STALEHEAD_def split: if_splits)
qed

theorem C5_idle_invariant_witness:
  "idle_inv (pd_mem example_created 7) \<and>
   pefs_dircache_beginupdate example_env example_created 7 5 = Inr example_updating \<and>
   idle_inv (pd_mem example_updating 7) \<and>
   pd_UPDATING (pd_mem example_updating 7) \<and>
   (\<exists>s'. pefs_dircache_endupdate example_env example_updating 7 = Inr s' \<and>
      \<not> pd_UPDATING (pd_mem s' 7) \<and> DIRCACHE_STALEHEAD (pd_mem s' 7) = [] \<and>
      idle_inv (pd_mem s' 7))"
proof -
  have c: "idle_inv (pd_mem example_created 7)"
    using C5_idle_invariant [of example_boot 7 1] by (simp add: example_created_def)
  have u: "idle_inv (pd_mem example_updating 7)"
    using C5_idle_invariant [of example_created 7 1 7 example_env _ _ _ _ example_updating _ 5]
      c example_beginupdate by simp
  have p: "pd_UPDATING (pd_mem example_updating 7)"
    by (simp add: example_updating_cache)
  obtain s' where e: "pefs_dircache_endupdate example_env example_updating 7 = Inr s'"
    by (simp add: pefs_dircache_endupdate_def example_updating_cache free_stale.simps
        DIRCACHE_STALEHEAD_def bindF_def)
  from C5_idle_invariant [of example_updating 7 1 7 example_env _ _ _ _ s' _ 5] u p e
  show ?thesis using c example_beginupdate by blast
qed

subsection \<open>Freeing entries of a well-formed cache\<close>

lemma DIRCACHE_TBL_cong:
  "dircache_hashmask s' = dircache_hashmask s \<Longrightarrow> DIRCACHE_TBL s' h = DIRCACHE_TBL s h"
  by (simp add: DIRCACHE_TBL_def)

lemma owned_heads: "owned s pd = set (DIRCACHE_ACTIVEHEAD (pd_mem s pd)) \<union> set (DIRCACHE_STALEHEAD (pd_mem s pd))"
  by (auto simp: owned_def DIRCACHE_ACTIVEHEAD_def DIRCACHE_STALEHEAD_def)

lemma distinct_heads:
  "distinct (pd_heads0 d @ pd_heads1 d) \<longleftrightarrow>
   distinct (DIRCACHE_ACTIVEHEAD d @ DIRCACHE_STALEHEAD d)"
  by (auto simp: DIRCACHE_ACTIVEHEAD_def DIRCACHE_STALEHEAD_def)

lemma distinct_REMOVE:
  assumes "distinct (pd_heads0 d @ pd_heads1 d)"
  shows "distinct (pd_heads0 (REMOVE_dir_entry x d) @ pd_heads1 (REMOVE_dir_entry x d))"
    and "set (pd_heads0 (REMOVE_dir_entry x d)) \<union> set (pd_heads1 (REMOVE_dir_entry x d))
           = (set (pd_heads0 d) \<union> set (pd_heads1 d)) - {x}"
  using assms by (auto simp: REMOVE_dir_entry_def dest: notin_set_remove1)

lemma tbl_ok_remove:
  assumes ok: "tbl_ok s pd tbl hf"
    and e: "pde_dircache (pde_mem s pde) = pd"
    and m: "pde_mem s' = pde_mem s" and h: "dircache_hashmask s' = dircache_hashmask s"
    and o: "owned s' pd = owned s pd - {pde}"
  shows "tbl_ok s' pd (tbl[DIRCACHE_TBL s (hf (pde_mem s pde)) := remove1 pde (tbl ! DIRCACHE_TBL s (hf (pde_mem s pde)))]) hf"
  unfolding tbl_ok_def
proof (intro allI impI conjI ballI; (elim conjE)?)
  let ?i = "DIRCACHE_TBL s (hf (pde_mem s pde))"
  let ?t = "tbl[?i := remove1 pde (tbl ! ?i)]"
  fix k assume k: "k < length ?t"
  then have kl: "k < length tbl" by simp
  have d: "distinct (tbl ! k)" using ok kl by (simp add: tbl_ok_def)
  show "distinct (?t ! k)" using d kl by (cases "k = ?i") simp_all
  fix x assume x: "x \<in> set (?t ! k)" and xd: "pde_dircache (pde_mem s' x) = pd"
  have xin: "x \<in> set (tbl ! k)"
  proof (cases "k = ?i")
    case True
    with x kl have "x \<in> set (remove1 pde (tbl ! ?i))" by simp
    then have "x \<in> set (tbl ! ?i)" by (rule set_remove1_subset [THEN subsetD])
    with True show ?thesis by simp
  next
    case False
    with x kl show ?thesis by simp
  qed
  from xd m have xd': "pde_dircache (pde_mem s x) = pd" by simp
  from ok kl have "\<forall>y \<in> set (tbl ! k). pde_dircache (pde_mem s y) = pd \<longrightarrow>
      y \<in> owned s pd \<and> k = DIRCACHE_TBL s (hf (pde_mem s y))"
    unfolding tbl_ok_def by blast
  with xin xd' have xo: "x \<in> owned s pd" and ki: "k = DIRCACHE_TBL s (hf (pde_mem s x))"
    by blast+
  have "x \<noteq> pde"
  proof
    assume "x = pde"
    with ki have "k = ?i" by simp
    with x kl d \<open>x = pde\<close> show False by simp
  qed
  with xo o show "x \<in> owned s' pd" by simp
  from ki m show "k = DIRCACHE_TBL s' (hf (pde_mem s' x))"
    by (simp add: DIRCACHE_TBL_cong [OF h])
qed

lemma entry_free_inv:
  assumes inv: "cache_inv s pd" and own: "pde \<in> owned s pd"
  shows "\<exists>s'. dircache_entry_free env s pd pde = Inr s' \<and> cache_inv s' pd \<and>
           owned s' pd = owned s pd - {pde} \<and>
           dircache_entries s' = dircache_entries s - 1"
proof -
  let ?d = "pd_mem s pd"
  let ?p = "pdp_mem s (pd_pool ?d)"
  let ?e = "pde_mem s pde"
  let ?i = "DIRCACHE_TBL s (pde_namehash ?e)" and ?j = "DIRCACHE_TBL s (pde_encnamehash ?e)"
  let ?s' = "s\<lparr>pd_mem := (pd_mem s)(pd := REMOVE_dir_entry pde ?d),
       pdp_mem := (pdp_mem s)(pd_pool ?d := ?p\<lparr>pdp_tbl := (pdp_tbl ?p)[?i := remove1 pde (pdp_tbl ?p ! ?i)],
          pdp_enctbl := (pdp_enctbl ?p)[?j := remove1 pde (pdp_enctbl ?p ! ?j)]\<rparr>),
       dircache_entries := dircache_entries s - 1\<rparr>"
  from inv own have nn: "pde \<noteq> NULL" and ed: "pde_dircache ?e = pd"
    by (auto simp: cache_inv_def)
  then have eq: "dircache_entry_free env s pd pde = Inr ?s'"
    by (simp add: dircache_entry_free_eq Let_def)
  have dist: "distinct (pd_heads0 ?d @ pd_heads1 ?d)" using inv by (simp add: cache_inv_def)
  have o': "owned ?s' pd = owned s pd - {pde}"
    using distinct_REMOVE(2) [OF dist, of pde] by (simp add: owned_def)
  have t1: "tbl_ok ?s' pd ((pdp_tbl ?p)[?i := remove1 pde (pdp_tbl ?p ! ?i)]) pde_namehash"
    by (rule tbl_ok_remove [OF _ ed _ _ o']) (use inv in \<open>simp_all add: cache_inv_def\<close>)
  have t2: "tbl_ok ?s' pd ((pdp_enctbl ?p)[?j := remove1 pde (pdp_enctbl ?p ! ?j)]) pde_encnamehash"
    by (rule tbl_ok_remove [OF _ ed _ _ o']) (use inv in \<open>simp_all add: cache_inv_def\<close>)
  have "cache_inv ?s' pd"
    unfolding cache_inv_def
  proof (intro conjI ballI)
    show "distinct (pd_heads0 (pd_mem ?s' pd) @ pd_heads1 (pd_mem ?s' pd))"
      using distinct_REMOVE(1) [OF dist, of pde] by simp
    show "x \<noteq> NULL" if "x \<in> owned ?s' pd" for x
      using that o' inv by (auto simp: cache_inv_def)
    show "pde_dircache (pde_mem ?s' x) = pd" if "x \<in> owned ?s' pd" for x
      using that o' inv by (auto simp: cache_inv_def)
    show "pool_ok ?s' (pdp_mem ?s' (pd_pool (pd_mem ?s' pd)))"
      using inv by (simp add: cache_inv_def pool_ok_def)
    show "tbl_ok ?s' pd (pdp_tbl (pdp_mem ?s' (pd_pool (pd_mem ?s' pd)))) pde_namehash"
      using t1 by simp
    show "tbl_ok ?s' pd (pdp_enctbl (pdp_mem ?s' (pd_pool (pd_mem ?s' pd)))) pde_encnamehash"
      using t2 by simp
  qed
  with eq o' show ?thesis by simp
qed

lemma DIRCACHE_TBL_bound: "DIRCACHE_TBL s h < Suc (unat (dircache_hashmask s))"
proof -
  have "(ucast h :: u_long) AND dircache_hashmask s \<le> dircache_hashmask s"
    by (rule word_and_le1)
  then show ?thesis by (simp add: DIRCACHE_TBL_def word_le_nat_alt)
qed

lemma free_stale_inv:
  "cache_inv s pd \<Longrightarrow>
   \<exists>s'. free_stale env s pd = Inr s' \<and> cache_inv s' pd \<and>
        DIRCACHE_STALEHEAD (pd_mem s' pd) = [] \<and>
        DIRCACHE_ACTIVEHEAD (pd_mem s' pd) = DIRCACHE_ACTIVEHEAD (pd_mem s pd) \<and>
        dircache_entries s' =
          dircache_entries s - of_nat (length (DIRCACHE_STALEHEAD (pd_mem s pd)))"
proof (induction env s pd rule: free_stale.induct)
  case (1 env s pd)
  show ?case
  proof (cases "DIRCACHE_STALEHEAD (pd_mem s pd)")
    case Nil
    with "1.prems" show ?thesis by (simp add: free_stale.simps [of env s pd])
  next
    case (Cons pde rest)
    then have own: "pde \<in> owned s pd" by (simp add: owned_heads)
    from entry_free_inv [OF "1.prems" own, of env] obtain s1 where
      f: "dircache_entry_free env s pd pde = Inr s1" and i1: "cache_inv s1 pd"
      and n1: "dircache_entries s1 = dircache_entries s - 1" by blast
    have "distinct (DIRCACHE_ACTIVEHEAD (pd_mem s pd) @ DIRCACHE_STALEHEAD (pd_mem s pd))"
      using "1.prems" unfolding cache_inv_def distinct_heads by blast
    with Cons have "pde \<notin> set (DIRCACHE_ACTIVEHEAD (pd_mem s pd))" by auto
    then have a1: "DIRCACHE_ACTIVEHEAD (pd_mem s1 pd) = DIRCACHE_ACTIVEHEAD (pd_mem s pd)"
      using entry_free_frame(1) [OF f] by (simp add: remove1_idem)
    have st1: "DIRCACHE_STALEHEAD (pd_mem s1 pd) = rest"
      by (rule STALEHEAD_entry_free [OF f Cons])
    from "1.IH" [OF Cons f i1] obtain s' where
      "free_stale env s1 pd = Inr s'" "cache_inv s' pd"
      "DIRCACHE_STALEHEAD (pd_mem s' pd) = []"
      "DIRCACHE_ACTIVEHEAD (pd_mem s' pd) = DIRCACHE_ACTIVEHEAD (pd_mem s1 pd)"
      "dircache_entries s' = dircache_entries s1 - of_nat (length (DIRCACHE_STALEHEAD (pd_mem s1 pd)))"
      by blast
    with f Cons a1 st1 n1 show ?thesis
      by (simp add: free_stale.simps [of env s pd])
  qed
qed

lemma free_active_inv:
  "cache_inv s pd \<Longrightarrow>
   \<exists>s'. free_active env s pd = Inr s' \<and> cache_inv s' pd \<and>
        DIRCACHE_ACTIVEHEAD (pd_mem s' pd) = [] \<and>
        DIRCACHE_STALEHEAD (pd_mem s' pd) = DIRCACHE_STALEHEAD (pd_mem s pd) \<and>
        dircache_entries s' =
          dircache_entries s - of_nat (length (DIRCACHE_ACTIVEHEAD (pd_mem s pd)))"
proof (induction env s pd rule: free_active.induct)
  case (1 env s pd)
  show ?case
  proof (cases "DIRCACHE_ACTIVEHEAD (pd_mem s pd)")
    case Nil
    with "1.prems" show ?thesis by (simp add: free_active.simps [of env s pd])
  next
    case (Cons pde rest)
    then have own: "pde \<in> owned s pd" by (simp add: owned_heads)
    from entry_free_inv [OF "1.prems" own, of env] obtain s1 where
      f: "dircache_entry_free env s pd pde = Inr s1" and i1: "cache_inv s1 pd"
      and n1: "dircache_entries s1 = dircache_entries s - 1" by blast
    have "distinct (DIRCACHE_ACTIVEHEAD (pd_mem s pd) @ DIRCACHE_STALEHEAD (pd_mem s pd))"
      using "1.prems" unfolding cache_inv_def distinct_heads by blast
    with Cons have "pde \<notin> set (DIRCACHE_STALEHEAD (pd_mem s pd))" by auto
    then have a1: "DIRCACHE_STALEHEAD (pd_mem s1 pd) = DIRCACHE_STALEHEAD (pd_mem s pd)"
      using entry_free_frame(1) [OF f] by (simp add: remove1_idem)
    have st1: "DIRCACHE_ACTIVEHEAD (pd_mem s1 pd) = rest"
      by (rule ACTIVEHEAD_entry_free [OF f Cons])
    from "1.IH" [OF Cons f i1] obtain s' where
      "free_active env s1 pd = Inr s'" "cache_inv s' pd"
      "DIRCACHE_ACTIVEHEAD (pd_mem s' pd) = []"
      "DIRCACHE_STALEHEAD (pd_mem s' pd) = DIRCACHE_STALEHEAD (pd_mem s1 pd)"
      "dircache_entries s' = dircache_entries s1 - of_nat (length (DIRCACHE_ACTIVEHEAD (pd_mem s1 pd)))"
      by blast
    with f Cons a1 st1 n1 show ?thesis
      by (simp add: free_active.simps [of env s pd])
  qed
qed

text \<open>A cache with two empty lists answers no lookup.\<close>

lemma lookup_scan_None:
  "\<forall>x \<in> set b. pde_dircache (pde_mem s x) \<noteq> pd \<Longrightarrow> lookup_scan s pd h name b = None"
  by (induction b) simp_all

lemma enclookup_scan_None:
  "\<forall>x \<in> set b. pde_dircache (pde_mem s x) \<noteq> pd \<Longrightarrow> enclookup_scan s pd h name b = None"
  by (induction b) simp_all

lemma tbl_ok_empty:
  assumes "tbl_ok s pd tbl hf" and "owned s pd = {}" and "b \<in> set tbl" and "x \<in> set b"
  shows "pde_dircache (pde_mem s x) \<noteq> pd"
proof -
  from assms(3) obtain i where "i < length tbl" "b = tbl ! i"
    by (auto simp: in_set_conv_nth)
  with assms(1) have "\<forall>y \<in> set b. pde_dircache (pde_mem s y) = pd \<longrightarrow> y \<in> owned s pd"
    unfolding tbl_ok_def by blast
  with assms(2,4) show ?thesis by blast
qed

lemma empty_cache_buckets:
  assumes "cache_inv s pd" and "owned s pd = {}"
  shows "\<forall>b \<in> set (pdp_tbl (pdp_mem s (pd_pool (pd_mem s pd)))).
           \<forall>x \<in> set b. pde_dircache (pde_mem s x) \<noteq> pd"
    and "\<forall>b \<in> set (pdp_enctbl (pdp_mem s (pd_pool (pd_mem s pd)))).
           \<forall>x \<in> set b. pde_dircache (pde_mem s x) \<noteq> pd"
proof -
  from assms(1) have
    "tbl_ok s pd (pdp_tbl (pdp_mem s (pd_pool (pd_mem s pd)))) pde_namehash"
    "tbl_ok s pd (pdp_enctbl (pdp_mem s (pd_pool (pd_mem s pd)))) pde_encnamehash"
    by (simp_all add: cache_inv_def)
  then show
    "\<forall>b \<in> set (pdp_tbl (pdp_mem s (pd_pool (pd_mem s pd)))).
           \<forall>x \<in> set b. pde_dircache (pde_mem s x) \<noteq> pd"
    "\<forall>b \<in> set (pdp_enctbl (pdp_mem s (pd_pool (pd_mem s pd)))).
           \<forall>x \<in> set b. pde_dircache (pde_mem s x) \<noteq> pd"
    using tbl_ok_empty [OF _ assms(2)] by blast+
qed

lemma empty_cache_lookups:
  assumes inv: "cache_inv s pd" and e: "owned s pd = {}"
  shows "pefs_dircache_enclookup env s pd encname = None"
    and "pefs_dircache_lookup env s pd name =
           (if INVARIANTS env \<and> (pd = NULL \<or> pd_UPDATING (pd_mem s pd)) then Inl MPASS_failed
            else Inr None)"
proof -
  let ?p = "pdp_mem s (pd_pool (pd_mem s pd))"
  have len: "length (pdp_tbl ?p) = Suc (unat (dircache_hashmask s))"
    "length (pdp_enctbl ?p) = Suc (unat (dircache_hashmask s))"
    using inv by (simp_all add: cache_inv_def pool_ok_def)
  have "pdp_enctbl ?p ! DIRCACHE_TBL s h \<in> set (pdp_enctbl ?p)" for h
    using len DIRCACHE_TBL_bound [of s h] by simp
  with empty_cache_buckets(2) [OF inv e]
  have "\<forall>x \<in> set (pdp_enctbl ?p ! DIRCACHE_TBL s h). pde_dircache (pde_mem s x) \<noteq> pd" for h
    by blast
  then show "pefs_dircache_enclookup env s pd encname = None"
    by (simp add: pefs_dircache_enclookup_def Let_def enclookup_scan_None)
  have "pdp_tbl ?p ! DIRCACHE_TBL s h \<in> set (pdp_tbl ?p)" for h
    using len DIRCACHE_TBL_bound [of s h] by simp
  with empty_cache_buckets(1) [OF inv e]
  have "\<forall>x \<in> set (pdp_tbl ?p ! DIRCACHE_TBL s h). pde_dircache (pde_mem s x) \<noteq> pd" for h
    by blast
  moreover have "DIRCACHE_STALEHEAD (pd_mem s pd) = []"
    using e by (simp add: owned_heads)
  ultimately show "pefs_dircache_lookup env s pd name =
           (if INVARIANTS env \<and> (pd = NULL \<or> pd_UPDATING (pd_mem s pd)) then Inl MPASS_failed
            else Inr None)"
    by (simp add: pefs_dircache_lookup_def Let_def lookup_scan_None MPASS_def)
qed

subsection \<open>Expiry keeps a cache well formed\<close>

lemma tbl_ok_cong:
  assumes "tbl_ok s pd tbl hf"
    and "\<And>x. pde_dircache (pde_mem s' x) = pde_dircache (pde_mem s x)"
    and "\<And>x. hf (pde_mem s' x) = hf (pde_mem s x)"
    and "dircache_hashmask s' = dircache_hashmask s"
    and "owned s' pd = owned s pd"
  shows "tbl_ok s' pd tbl hf"
  using assms(1) unfolding tbl_ok_def
  by (simp add: assms(2,3,5) DIRCACHE_TBL_cong [OF assms(4)])

lemma cache_inv_cong:
  assumes "cache_inv s pd"
    and "pd_heads0 (pd_mem s' pd) = pd_heads0 (pd_mem s pd)"
    and "pd_heads1 (pd_mem s' pd) = pd_heads1 (pd_mem s pd)"
    and "pd_pool (pd_mem s' pd) = pd_pool (pd_mem s pd)"
    and "pdp_mem s' = pdp_mem s"
    and "dircache_hashmask s' = dircache_hashmask s"
    and "\<And>x. pde_dircache (pde_mem s' x) = pde_dircache (pde_mem s x)"
    and "\<And>x. pde_namehash (pde_mem s' x) = pde_namehash (pde_mem s x)"
    and "\<And>x. pde_encnamehash (pde_mem s' x) = pde_encnamehash (pde_mem s x)"
  shows "cache_inv s' pd"
proof -
  have o: "owned s' pd = owned s pd" by (simp add: owned_def assms(2,3))
  have t1: "tbl_ok s' pd (pdp_tbl (pdp_mem s (pd_pool (pd_mem s pd)))) pde_namehash"
    by (rule tbl_ok_cong [OF _ assms(7) assms(8) assms(6) o])
       (use assms(1) in \<open>simp add: cache_inv_def\<close>)
  have t2: "tbl_ok s' pd (pdp_enctbl (pdp_mem s (pd_pool (pd_mem s pd)))) pde_encnamehash"
    by (rule tbl_ok_cong [OF _ assms(7) assms(9) assms(6) o])
       (use assms(1) in \<open>simp add: cache_inv_def\<close>)
  show ?thesis
    using assms(1) t1 t2 unfolding cache_inv_def o
    by (simp add: assms(2-7) pool_ok_def)
qed

lemma expire_step_distinct:
  assumes "distinct (pd_heads0 (pd_mem s pd) @ pd_heads1 (pd_mem s pd))"
  shows "distinct (pd_heads0 (pd_mem (expire_step s pd pde) pd) @
                   pd_heads1 (pd_mem (expire_step s pd pde) pd))"
  using assms
  by (auto simp: expire_step_def Let_def INSERT_STALEHEAD_def REMOVE_dir_entry_def
      dest: notin_set_remove1)

lemma expire_loop_distinct:
  "distinct (pd_heads0 (pd_mem s pd) @ pd_heads1 (pd_mem s pd)) \<Longrightarrow>
   distinct (pd_heads0 (pd_mem (expire_loop s pd) pd) @ pd_heads1 (pd_mem (expire_loop s pd) pd))"
proof (induction s pd rule: expire_loop.induct)
  case (1 s pd)
  show ?case
  proof (cases "DIRCACHE_ACTIVEHEAD (pd_mem s pd)")
    case Nil
    with "1.prems" show ?thesis by (simp add: expire_loop.simps [of s pd])
  next
    case (Cons pde rest)
    have eq: "expire_loop s pd = expire_loop (expire_step s pd pde) pd"
      using Cons by (simp add: expire_loop.simps [of s pd])
    show ?thesis
      unfolding eq by (rule "1.IH" [OF Cons expire_step_distinct [OF "1.prems"]])
  qed
qed

lemma cache_inv_expire:
  assumes "cache_inv s pd"
  shows "cache_inv (expire_result s pd) pd"
proof -
  let ?s1 = "s\<lparr>pd_mem := (pd_mem s)(pd := (pd_mem s pd)\<lparr>pd_gen := 0\<rparr>)\<rparr>"
  have i1: "cache_inv ?s1 pd"
    by (rule cache_inv_cong [OF assms]) simp_all
  show ?thesis
  proof (cases "DIRCACHE_STALEHEAD (pd_mem s pd) = []")
    case True
    show ?thesis
      by (rule cache_inv_cong [OF assms]) (simp_all add: expire_result_def True)
  next
    case False
    then have eq: "expire_result s pd = expire_loop ?s1 pd"
      by (simp add: expire_result_def)
    have d: "distinct (pd_heads0 (pd_mem (expire_loop ?s1 pd) pd) @
                       pd_heads1 (pd_mem (expire_loop ?s1 pd) pd))"
      by (rule expire_loop_distinct) (use assms in \<open>simp add: cache_inv_def\<close>)
    have o: "owned (expire_loop ?s1 pd) pd = owned ?s1 pd"
      using expire_loop_frame [of ?s1 pd] by blast
    have p: "pd_pool (pd_mem (expire_loop ?s1 pd) pd) = pd_pool (pd_mem ?s1 pd)"
      "pdp_mem (expire_loop ?s1 pd) = pdp_mem ?s1"
      "dircache_hashmask (expire_loop ?s1 pd) = dircache_hashmask ?s1"
      using expire_loop_frame [of ?s1 pd] by blast+
    have t1: "tbl_ok (expire_loop ?s1 pd) pd (pdp_tbl (pdp_mem ?s1 (pd_pool (pd_mem ?s1 pd)))) pde_namehash"
      by (rule tbl_ok_cong [OF _ _ _ p(3) o])
         (use i1 in \<open>simp_all add: cache_inv_def expire_loop_fields\<close>)
    have t2: "tbl_ok (expire_loop ?s1 pd) pd (pdp_enctbl (pdp_mem ?s1 (pd_pool (pd_mem ?s1 pd)))) pde_encnamehash"
      by (rule tbl_ok_cong [OF _ _ _ p(3) o])
         (use i1 in \<open>simp_all add: cache_inv_def expire_loop_fields\<close>)
    have "cache_inv (expire_loop ?s1 pd) pd"
      unfolding cache_inv_def o p
      using i1 d t1 t2 by (simp add: cache_inv_def pool_ok_def p expire_loop_fields)
    with eq show ?thesis by simp
  qed
qed

subsection \<open>Purge\<close>

lemma owned_empty_iff:
  "owned s pd = {} \<longleftrightarrow> pd_heads0 (pd_mem s pd) = [] \<and> pd_heads1 (pd_mem s pd) = []"
  by (simp add: owned_def)

lemma card_owned:
  "cache_inv s pd \<Longrightarrow>
   card (owned s pd) = length (DIRCACHE_ACTIVEHEAD (pd_mem s pd)) +
                       length (DIRCACHE_STALEHEAD (pd_mem s pd))"
proof -
  assume "cache_inv s pd"
  then have d: "distinct (pd_heads0 (pd_mem s pd) @ pd_heads1 (pd_mem s pd))"
    by (simp add: cache_inv_def)
  have "owned s pd = set (pd_heads0 (pd_mem s pd) @ pd_heads1 (pd_mem s pd))"
    by (simp add: owned_def)
  then have "card (owned s pd) = length (pd_heads0 (pd_mem s pd) @ pd_heads1 (pd_mem s pd))"
    using distinct_card [OF d] by simp
  then show ?thesis
    by (simp add: DIRCACHE_ACTIVEHEAD_def DIRCACHE_STALEHEAD_def)
qed

lemma freed_not_in_buckets:
  assumes inv': "cache_inv s' pd" and e: "owned s' pd = {}"
    and m: "pde_mem s' = pde_mem s" and inv: "cache_inv s pd" and x: "x \<in> owned s pd"
  shows "\<forall>b \<in> set (pdp_tbl (pdp_mem s' (pd_pool (pd_mem s' pd)))). x \<notin> set b"
    and "\<forall>b \<in> set (pdp_enctbl (pdp_mem s' (pd_pool (pd_mem s' pd)))). x \<notin> set b"
proof -
  from inv x have "pde_dircache (pde_mem s' x) = pd" by (simp add: cache_inv_def m)
  with empty_cache_buckets [OF inv' e]
  show "\<forall>b \<in> set (pdp_tbl (pdp_mem s' (pd_pool (pd_mem s' pd)))). x \<notin> set b"
    "\<forall>b \<in> set (pdp_enctbl (pdp_mem s' (pd_pool (pd_mem s' pd)))). x \<notin> set b"
    by blast+
qed

text \<open>
  Claim C7.  \<open>pefs_dircache_purge\<close> on a well-formed cache returns; both lists of the
  cache are empty and the cache is still well formed; the entry counter has dropped by the
  number of entries the cache held; none of these entries is left in a bucket of either
  table of the pool; afterwards \<open>pefs_dircache_enclookup\<close> finds nothing for any name,
  and \<open>pefs_dircache_lookup\<close> finds nothing for any name (a cache purged in the middle
  of a pass is still updating, where the lookup by name stops at its own assertion in a
  kernel with \<open>INVARIANTS\<close>).
\<close>

theorem C7_purge:
  assumes inv: "cache_inv s pd" and nn: "pd \<noteq> NULL"
  shows "\<exists>s'. pefs_dircache_purge env s pd = Inr s' \<and>
           pd_heads0 (pd_mem s' pd) = [] \<and> pd_heads1 (pd_mem s' pd) = [] \<and>
           cache_inv s' pd \<and>
           dircache_entries s' = dircache_entries s - of_nat (card (owned s pd)) \<and>
           (\<forall>x \<in> owned s pd.
              (\<forall>b \<in> set (pdp_tbl (pdp_mem s' (pd_pool (pd_mem s' pd)))). x \<notin> set b) \<and>
              (\<forall>b \<in> set (pdp_enctbl (pdp_mem s' (pd_pool (pd_mem s' pd)))). x \<notin> set b)) \<and>
           (\<forall>encname. pefs_dircache_enclookup env s' pd encname = None) \<and>
           (\<forall>name. pefs_dircache_lookup env s' pd name =
              (if INVARIANTS env \<and> pd_UPDATING (pd_mem s pd) then Inl MPASS_failed
               else Inr None))"
proof -
  from free_stale_inv [OF inv, of env] obtain s1 where
    f1: "free_stale env s pd = Inr s1" and i1: "cache_inv s1 pd"
    and st1: "DIRCACHE_STALEHEAD (pd_mem s1 pd) = []"
    and a1: "DIRCACHE_ACTIVEHEAD (pd_mem s1 pd) = DIRCACHE_ACTIVEHEAD (pd_mem s pd)"
    and n1: "dircache_entries s1 =
          dircache_entries s - of_nat (length (DIRCACHE_STALEHEAD (pd_mem s pd)))"
    by blast
  from free_active_inv [OF i1, of env] obtain s' where
    f2: "free_active env s1 pd = Inr s'" and i2: "cache_inv s' pd"
    and a2: "DIRCACHE_ACTIVEHEAD (pd_mem s' pd) = []"
    and st2: "DIRCACHE_STALEHEAD (pd_mem s' pd) = DIRCACHE_STALEHEAD (pd_mem s1 pd)"
    and n2: "dircache_entries s' =
          dircache_entries s1 - of_nat (length (DIRCACHE_ACTIVEHEAD (pd_mem s1 pd)))"
    by blast
  have p: "pefs_dircache_purge env s pd = Inr s'"
    using nn f1 f2 by (simp add: pefs_dircache_purge_def bindF_def)
  have e: "owned s' pd = {}" using a2 st2 st1 by (simp add: owned_heads)
  have fr: "free_frame pd s s1" "free_frame pd s1 s'"
    using free_stale_frame [OF f1] free_active_frame [OF f2] by simp_all
  then have m: "pde_mem s' = pde_mem s"
    and u: "pd_UPDATING (pd_mem s' pd) = pd_UPDATING (pd_mem s pd)"
    by (simp_all add: free_frame_def)
  have n: "dircache_entries s' = dircache_entries s - of_nat (card (owned s pd))"
    using n1 n2 a1 by (simp add: card_owned [OF inv])
  have l: "pefs_dircache_lookup env s' pd name =
              (if INVARIANTS env \<and> pd_UPDATING (pd_mem s pd) then Inl MPASS_failed
               else Inr None)" for name
    using empty_cache_lookups(2) [OF i2 e, of env name] nn u by simp
  show ?thesis
    using p e i2 n l empty_cache_lookups(1) [OF i2 e, of env]
      freed_not_in_buckets [OF i2 e m inv]
    by (auto simp: owned_empty_iff)
qed

subsection \<open>Insertion keeps a cache well formed\<close>

lemma tbl_ok_change:
  assumes ok: "tbl_ok s pd tbl hf"
    and sub: "owned s pd \<subseteq> owned s' pd"
    and h: "dircache_hashmask s' = dircache_hashmask s"
    and bk: "\<And>b x. b \<in> set tbl \<Longrightarrow> x \<in> set b \<Longrightarrow>
               pde_dircache (pde_mem s' x) = pde_dircache (pde_mem s x) \<and>
               hf (pde_mem s' x) = hf (pde_mem s x)"
  shows "tbl_ok s' pd tbl hf"
  unfolding tbl_ok_def
proof (intro allI impI conjI ballI)
  fix i assume i: "i < length tbl"
  then have b: "tbl ! i \<in> set tbl" by simp
  show "distinct (tbl ! i)" using ok i by (simp add: tbl_ok_def)
  fix x assume x: "x \<in> set (tbl ! i)" and d: "pde_dircache (pde_mem s' x) = pd"
  from bk [OF b x] d have d0: "pde_dircache (pde_mem s x) = pd"
    and hx: "hf (pde_mem s' x) = hf (pde_mem s x)" by simp_all
  from ok i have "\<forall>y \<in> set (tbl ! i). pde_dircache (pde_mem s y) = pd \<longrightarrow>
      y \<in> owned s pd \<and> i = DIRCACHE_TBL s (hf (pde_mem s y))"
    unfolding tbl_ok_def by blast
  with x d0 have "x \<in> owned s pd" and ii: "i = DIRCACHE_TBL s (hf (pde_mem s x))" by blast+
  with sub show "x \<in> owned s' pd" by blast
  from ii hx show "i = DIRCACHE_TBL s' (hf (pde_mem s' x))"
    by (simp add: DIRCACHE_TBL_cong [OF h])
qed

lemma cache_inv_change:
  assumes inv: "cache_inv s pd"
    and heads: "distinct (pd_heads0 (pd_mem s' pd) @ pd_heads1 (pd_mem s' pd))"
    and sub: "owned s pd \<subseteq> owned s' pd"
    and own: "\<And>x. x \<in> owned s' pd \<Longrightarrow> x \<noteq> NULL \<and> pde_dircache (pde_mem s' x) = pd"
    and pool: "pd_pool (pd_mem s' pd) = pd_pool (pd_mem s pd)" "pdp_mem s' = pdp_mem s"
    and h: "dircache_hashmask s' = dircache_hashmask s"
    and bk: "\<And>b x. b \<in> set (pdp_tbl (pdp_mem s (pd_pool (pd_mem s pd)))) \<union>
                     set (pdp_enctbl (pdp_mem s (pd_pool (pd_mem s pd)))) \<Longrightarrow> x \<in> set b \<Longrightarrow>
               pde_dircache (pde_mem s' x) = pde_dircache (pde_mem s x) \<and>
               pde_namehash (pde_mem s' x) = pde_namehash (pde_mem s x) \<and>
               pde_encnamehash (pde_mem s' x) = pde_encnamehash (pde_mem s x)"
  shows "cache_inv s' pd"
proof -
  have o1: "tbl_ok s pd (pdp_tbl (pdp_mem s (pd_pool (pd_mem s pd)))) pde_namehash"
    and o2: "tbl_ok s pd (pdp_enctbl (pdp_mem s (pd_pool (pd_mem s pd)))) pde_encnamehash"
    using inv by (simp_all add: cache_inv_def)
  have t1: "tbl_ok s' pd (pdp_tbl (pdp_mem s (pd_pool (pd_mem s pd)))) pde_namehash"
    by (rule tbl_ok_change [OF o1 sub h]) (use bk in blast)
  have t2: "tbl_ok s' pd (pdp_enctbl (pdp_mem s (pd_pool (pd_mem s pd)))) pde_encnamehash"
    by (rule tbl_ok_change [OF o2 sub h]) (use bk in blast)
  have p: "pool_ok s' (pdp_mem s (pd_pool (pd_mem s pd)))"
    using inv by (simp add: cache_inv_def pool_ok_def h)
  show ?thesis
    unfolding cache_inv_def pool
    using heads own t1 t2 p by blast
qed

lemma tbl_ok_insert:
  assumes ok: "tbl_ok s pd tbl hf"
    and fresh: "\<And>b. b \<in> set tbl \<Longrightarrow> pde \<notin> set b"
    and own: "pde \<in> owned s pd"
  shows "tbl_ok s pd (tbl[DIRCACHE_TBL s (hf (pde_mem s pde)) :=
                          pde # tbl ! DIRCACHE_TBL s (hf (pde_mem s pde))]) hf"
  unfolding tbl_ok_def
proof (intro allI impI conjI ballI)
  let ?i = "DIRCACHE_TBL s (hf (pde_mem s pde))"
  let ?t = "tbl[?i := pde # tbl ! ?i]"
  fix k assume "k < length ?t"
  then have k: "k < length tbl" by simp
  then have b: "tbl ! k \<in> set tbl" by simp
  have d: "distinct (tbl ! k)" using ok k by (simp add: tbl_ok_def)
  show "distinct (?t ! k)" using d k fresh [OF b] by (cases "k = ?i") simp_all
  fix x assume x: "x \<in> set (?t ! k)" and xd: "pde_dircache (pde_mem s x) = pd"
  from ok k have old: "\<forall>y \<in> set (tbl ! k). pde_dircache (pde_mem s y) = pd \<longrightarrow>
      y \<in> owned s pd \<and> k = DIRCACHE_TBL s (hf (pde_mem s y))"
    unfolding tbl_ok_def by blast
  have c: "x \<in> set (tbl ! k) \<or> (x = pde \<and> k = ?i)"
    using x k by (cases "k = ?i") auto
  from c old xd own show "x \<in> owned s pd" by blast
  from c old xd show "k = DIRCACHE_TBL s (hf (pde_mem s x))" by blast
qed

lemma insert_eq:
  "pefs_dircache_insert env s pde pd ptk name encname =
     (if INVARIANTS env \<and> ptk_key ptk = NULL then Inl MPASS_failed
      else if length name = 0 \<or> sizeof_pde_name env \<le> length name \<or>
              length encname = 0 \<or> sizeof_pde_encname env \<le> length encname
      then Inl Panic_invalid_file_name_length
      else Inr (hash_link (dir_link (s\<lparr>pde_mem := (pde_mem s)(pde :=
                  entry_init env pd ptk name encname)\<rparr>) pd pde) pd pde, pde))"
  by (simp add: pefs_dircache_insert_def MPASS_def Let_def bindF_def dircache_update_def
      dircache_expire_eq entry_init_def dir_link_def hash_link_def zero_entry_def
      DIRCACHE_TBL_def)

lemma cache_inv_set_entry:
  assumes "cache_inv s pd" and "fresh_entry s pd pde"
  shows "cache_inv (s\<lparr>pde_mem := (pde_mem s)(pde := e)\<rparr>) pd"
proof (rule cache_inv_change [OF assms(1)])
  let ?s' = "s\<lparr>pde_mem := (pde_mem s)(pde := e)\<rparr>"
  show "distinct (pd_heads0 (pd_mem ?s' pd) @ pd_heads1 (pd_mem ?s' pd))"
    using assms(1) by (simp add: cache_inv_def)
  show "owned s pd \<subseteq> owned ?s' pd" by (simp add: owned_def)
  show "x \<noteq> NULL \<and> pde_dircache (pde_mem ?s' x) = pd" if "x \<in> owned ?s' pd" for x
  proof -
    from that have x: "x \<in> owned s pd" by (simp add: owned_def)
    with assms(2) have "x \<noteq> pde" by (auto simp: fresh_entry_def)
    with x assms(1) show ?thesis by (simp add: cache_inv_def)
  qed
  show "pde_dircache (pde_mem ?s' x) = pde_dircache (pde_mem s x) \<and>
        pde_namehash (pde_mem ?s' x) = pde_namehash (pde_mem s x) \<and>
        pde_encnamehash (pde_mem ?s' x) = pde_encnamehash (pde_mem s x)"
    if "b \<in> set (pdp_tbl (pdp_mem s (pd_pool (pd_mem s pd)))) \<union>
            set (pdp_enctbl (pdp_mem s (pd_pool (pd_mem s pd))))" "x \<in> set b" for b x
  proof -
    from that assms(2) have "x \<noteq> pde" by (auto simp: fresh_entry_def)
    then show ?thesis by simp
  qed
qed simp_all

lemma cache_inv_link:
  assumes inv: "cache_inv t pd" and nn: "pde \<noteq> NULL" and no: "pde \<notin> owned t pd"
    and dc: "pde_dircache (pde_mem t pde) = pd"
    and d': "d' = INSERT_ACTIVEHEAD pde (pd_mem t pd) \<or> d' = INSERT_STALEHEAD pde (pd_mem t pd)"
  shows "cache_inv (t\<lparr>pde_mem := (pde_mem t)(pde := (pde_mem t pde)\<lparr>pde_gen := g\<rparr>),
                      pd_mem := (pd_mem t)(pd := d')\<rparr>) pd"
    (is "cache_inv ?t' pd")
proof (rule cache_inv_change [OF inv])
  have h: "(pd_heads0 d' = pde # pd_heads0 (pd_mem t pd) \<and> pd_heads1 d' = pd_heads1 (pd_mem t pd)) \<or>
           (pd_heads0 d' = pd_heads0 (pd_mem t pd) \<and> pd_heads1 d' = pde # pd_heads1 (pd_mem t pd))"
    using d' by (cases "pd_SWAPEDHEADS (pd_mem t pd)")
      (auto simp: INSERT_ACTIVEHEAD_def INSERT_STALEHEAD_def)
  have o: "owned ?t' pd = insert pde (owned t pd)"
    using h by (auto simp: owned_def)
  show "distinct (pd_heads0 (pd_mem ?t' pd) @ pd_heads1 (pd_mem ?t' pd))"
    using h inv no by (auto simp: cache_inv_def owned_def)
  show "owned t pd \<subseteq> owned ?t' pd" using o by blast
  show "x \<noteq> NULL \<and> pde_dircache (pde_mem ?t' x) = pd" if "x \<in> owned ?t' pd" for x
    using that o inv nn dc by (auto simp: cache_inv_def)
  show "pd_pool (pd_mem ?t' pd) = pd_pool (pd_mem t pd)"
    using d' by auto
qed simp_all

lemma dir_link_frame:
  "pdp_mem (dir_link s pd pde) = pdp_mem s"
  "dircache_hashmask (dir_link s pd pde) = dircache_hashmask s"
  "dircache_entries (dir_link s pd pde) = dircache_entries s"
  "pd_pool (pd_mem (dir_link s pd pde) pd) = pd_pool (pd_mem s pd)"
  "pd_UPDATING (pd_mem (dir_link s pd pde) pd) = pd_UPDATING (pd_mem s pd)"
  "owned (dir_link s pd pde) pd = insert pde (owned s pd)"
  "pde_dircache (pde_mem (dir_link s pd pde) x) = pde_dircache (pde_mem s x)"
  "pde_namehash (pde_mem (dir_link s pd pde) x) = pde_namehash (pde_mem s x)"
  "pde_encnamehash (pde_mem (dir_link s pd pde) x) = pde_encnamehash (pde_mem s x)"
  "pde_namelen (pde_mem (dir_link s pd pde) x) = pde_namelen (pde_mem s x)"
  "pde_name (pde_mem (dir_link s pd pde) x) = pde_name (pde_mem s x)"
  "pde_encnamelen (pde_mem (dir_link s pd pde) x) = pde_encnamelen (pde_mem s x)"
  "pde_encname (pde_mem (dir_link s pd pde) x) = pde_encname (pde_mem s x)"
  "pde_tkey (pde_mem (dir_link s pd pde) x) = pde_tkey (pde_mem s x)"
  using expire_result_frame(10) [of s pd]
  by (auto simp: dir_link_def Let_def expire_result_frame expire_result_fields owned_heads)

lemma dir_link_updating:
  "pd_UPDATING (pd_mem s pd) \<Longrightarrow>
     pd_gen (pd_mem (dir_link s pd pde) pd) = pd_gen (pd_mem s pd) \<and>
     pde_gen (pde_mem (dir_link s pd pde) pde) = pd_gen (pd_mem s pd) \<and>
     DIRCACHE_ACTIVEHEAD (pd_mem (dir_link s pd pde) pd) = pde # DIRCACHE_ACTIVEHEAD (pd_mem s pd) \<and>
     DIRCACHE_STALEHEAD (pd_mem (dir_link s pd pde) pd) = DIRCACHE_STALEHEAD (pd_mem s pd)"
  by (simp add: dir_link_def)

lemma cache_inv_dir_link:
  assumes inv: "cache_inv s pd" and nn: "pde \<noteq> NULL" and no: "pde \<notin> owned s pd"
    and dc: "pde_dircache (pde_mem s pde) = pd"
  shows "cache_inv (dir_link s pd pde) pd"
proof (cases "pd_UPDATING (pd_mem s pd)")
  case True
  then show ?thesis
    using cache_inv_link [OF inv nn no dc, of "INSERT_ACTIVEHEAD pde (pd_mem s pd)"]
    by (simp add: dir_link_def)
next
  case False
  let ?x = "expire_result s pd"
  have "cache_inv ?x pd" by (rule cache_inv_expire [OF inv])
  moreover have "pde \<notin> owned ?x pd" using no by (simp add: expire_result_frame)
  moreover have "pde_dircache (pde_mem ?x pde) = pd" using dc by (simp add: expire_result_fields)
  ultimately show ?thesis
    using cache_inv_link [OF _ nn, of ?x pd "INSERT_STALEHEAD pde (pd_mem ?x pd)"] False
    by (simp add: dir_link_def Let_def)
qed

lemma cache_inv_hash_link:
  assumes inv: "cache_inv s pd" and own: "pde \<in> owned s pd"
    and f1: "\<And>b. b \<in> set (pdp_tbl (pdp_mem s (pd_pool (pd_mem s pd)))) \<Longrightarrow> pde \<notin> set b"
    and f2: "\<And>b. b \<in> set (pdp_enctbl (pdp_mem s (pd_pool (pd_mem s pd)))) \<Longrightarrow> pde \<notin> set b"
  shows "cache_inv (hash_link s pd pde) pd"
proof -
  let ?p = "pdp_mem s (pd_pool (pd_mem s pd))"
  let ?i = "DIRCACHE_TBL s (pde_namehash (pde_mem s pde))"
  let ?j = "DIRCACHE_TBL s (pde_encnamehash (pde_mem s pde))"
  let ?s' = "hash_link s pd pde"
  have o1: "tbl_ok s pd (pdp_tbl ?p) pde_namehash"
    and o2: "tbl_ok s pd (pdp_enctbl ?p) pde_encnamehash"
    using inv by (simp_all add: cache_inv_def)
  have fr: "pd_mem ?s' = pd_mem s" "pde_mem ?s' = pde_mem s"
    "dircache_hashmask ?s' = dircache_hashmask s" "owned ?s' pd = owned s pd"
    by (simp_all add: hash_link_def Let_def owned_def)
  have t1: "tbl_ok ?s' pd ((pdp_tbl ?p)[?i := pde # pdp_tbl ?p ! ?i]) pde_namehash"
    by (rule tbl_ok_change [OF tbl_ok_insert [OF o1 f1 own]]) (simp_all add: fr)
  have t2: "tbl_ok ?s' pd ((pdp_enctbl ?p)[?j := pde # pdp_enctbl ?p ! ?j]) pde_encnamehash"
    by (rule tbl_ok_change [OF tbl_ok_insert [OF o2 f2 own]]) (simp_all add: fr)
  have pe: "pdp_mem ?s' (pd_pool (pd_mem s pd)) =
      ?p\<lparr>pdp_tbl := (pdp_tbl ?p)[?i := pde # pdp_tbl ?p ! ?i],
         pdp_enctbl := (pdp_enctbl ?p)[?j := pde # pdp_enctbl ?p ! ?j]\<rparr>"
    by (simp add: hash_link_def Let_def)
  show ?thesis
    unfolding cache_inv_def fr pe
    using inv t1 t2 by (simp add: cache_inv_def pool_ok_def fr)
qed

lemma hash_link_frame:
  "pd_mem (hash_link s pd pde) = pd_mem s"
  "pde_mem (hash_link s pd pde) = pde_mem s"
  "dircache_hashmask (hash_link s pd pde) = dircache_hashmask s"
  "dircache_entries (hash_link s pd pde) = dircache_entries s + 1"
  "owned (hash_link s pd pde) pd = owned s pd"
  by (simp_all add: hash_link_def Let_def owned_def)

lemma hash_link_buckets:
  assumes "pool_ok s (pdp_mem s (pd_pool (pd_mem s pd)))"
  shows "pdp_tbl (pdp_mem (hash_link s pd pde) (pd_pool (pd_mem s pd))) !
           DIRCACHE_TBL s (pde_namehash (pde_mem s pde)) =
         pde # pdp_tbl (pdp_mem s (pd_pool (pd_mem s pd))) !
           DIRCACHE_TBL s (pde_namehash (pde_mem s pde))"
    and "pdp_enctbl (pdp_mem (hash_link s pd pde) (pd_pool (pd_mem s pd))) !
           DIRCACHE_TBL s (pde_encnamehash (pde_mem s pde)) =
         pde # pdp_enctbl (pdp_mem s (pd_pool (pd_mem s pd))) !
           DIRCACHE_TBL s (pde_encnamehash (pde_mem s pde))"
  using assms DIRCACHE_TBL_bound [of s "pde_namehash (pde_mem s pde)"]
    DIRCACHE_TBL_bound [of s "pde_encnamehash (pde_mem s pde)"]
  by (simp_all add: hash_link_def Let_def pool_ok_def)

lemma insert_inv:
  assumes inv: "cache_inv s pd" and fr: "fresh_entry s pd pde"
    and key: "ptk_key ptk \<noteq> NULL"
    and len: "0 < length name" "length name < sizeof_pde_name env"
      "0 < length encname" "length encname < sizeof_pde_encname env"
  shows "\<exists>s'. pefs_dircache_insert env s pde pd ptk name encname = Inr (s', pde) \<and>
           cache_inv s' pd \<and> owned s' pd = insert pde (owned s pd)"
proof -
  let ?s0 = "s\<lparr>pde_mem := (pde_mem s)(pde := entry_init env pd ptk name encname)\<rparr>"
  let ?s1 = "dir_link ?s0 pd pde"
  let ?s2 = "hash_link ?s1 pd pde"
  have eq: "pefs_dircache_insert env s pde pd ptk name encname = Inr (?s2, pde)"
    using key len by (simp add: insert_eq)
  have i0: "cache_inv ?s0 pd" by (rule cache_inv_set_entry [OF inv fr])
  have nn: "pde \<noteq> NULL" and no: "pde \<notin> owned ?s0 pd"
    using fr by (simp_all add: fresh_entry_def owned_def)
  have dc: "pde_dircache (pde_mem ?s0 pde) = pd" by (simp add: entry_init_def)
  have i1: "cache_inv ?s1 pd" by (rule cache_inv_dir_link [OF i0 nn no dc])
  have o1: "owned ?s1 pd = insert pde (owned s pd)"
    by (simp add: dir_link_frame) (simp add: owned_def)
  have i2: "cache_inv ?s2 pd"
  proof (rule cache_inv_hash_link [OF i1])
    show "pde \<in> owned ?s1 pd" using o1 by simp
    show "pde \<notin> set b" if "b \<in> set (pdp_tbl (pdp_mem ?s1 (pd_pool (pd_mem ?s1 pd))))" for b
      using that fr by (simp add: dir_link_frame fresh_entry_def)
    show "pde \<notin> set b" if "b \<in> set (pdp_enctbl (pdp_mem ?s1 (pd_pool (pd_mem ?s1 pd))))" for b
      using that fr by (simp add: dir_link_frame fresh_entry_def)
  qed
  from eq i2 o1 show ?thesis by (simp add: hash_link_frame)
qed

subsection \<open>Insert, commit, look up\<close>

lemma free_stale_Nil:
  "DIRCACHE_STALEHEAD (pd_mem s pd) = [] \<Longrightarrow> free_stale env s pd = Inr s"
  by (simp add: free_stale.simps [of env s pd])

lemma endupdate_stale_Nil:
  assumes "pd_UPDATING (pd_mem s pd)" and "DIRCACHE_STALEHEAD (pd_mem s pd) = []"
  shows "pefs_dircache_endupdate env s pd =
           Inr (s\<lparr>pd_mem := (pd_mem s)(pd := (pd_mem s pd)\<lparr>pd_UPDATING := False\<rparr>)\<rparr>)"
  using assms by (simp add: pefs_dircache_endupdate_def free_stale_Nil bindF_def)

lemma lookup_bucket_head:
  assumes "pd \<noteq> NULL" and "\<not> pd_UPDATING (pd_mem s pd)"
    and "DIRCACHE_STALEHEAD (pd_mem s pd) = []"
    and "pdp_tbl (pdp_mem s (pd_pool (pd_mem s pd))) !
           DIRCACHE_TBL s (dircache_hashname env pd name) = pde # rest"
    and "pde_namehash (pde_mem s pde) = dircache_hashname env pd name"
    and "pde_dircache (pde_mem s pde) = pd"
    and "pde_gen (pde_mem s pde) = pd_gen (pd_mem s pd)"
    and "pde_namelen (pde_mem s pde) = length name"
    and "pde_name (pde_mem s pde) = name"
  shows "pefs_dircache_lookup env s pd name = Inr (Some pde)"
  using assms by (simp add: pefs_dircache_lookup_def MPASS_def Let_def)

lemma enclookup_bucket_head:
  assumes "pdp_enctbl (pdp_mem s (pd_pool (pd_mem s pd))) !
           DIRCACHE_TBL s (dircache_hashname env pd encname) = pde # rest"
    and "pde_encnamehash (pde_mem s pde) = dircache_hashname env pd encname"
    and "pde_dircache (pde_mem s pde) = pd"
    and "pde_encnamelen (pde_mem s pde) = length encname"
    and "pde_encname (pde_mem s pde) = encname"
  shows "pefs_dircache_enclookup env s pd encname = Some pde"
  using assms by (simp add: pefs_dircache_enclookup_def Let_def)

lemma example_boot_pool: "pool_ok example_boot (pdp_mem example_boot 1)"
  by (simp add: example_boot_def pool_ok_def)

lemma insert_commit_lookup:
  assumes pool: "pool_ok s (pdp_mem s pdp)"
    and pd: "pd \<noteq> NULL" and g: "g1 \<noteq> 0" and key: "ptk_key ptk \<noteq> NULL"
    and len: "0 < length name" "length name < sizeof_pde_name env"
      "0 < length encname" "length encname < sizeof_pde_encname env"
  shows "\<exists>s1 s2 s3.
           pefs_dircache_beginupdate env (pefs_dircache_create s pd pdp) pd g1 = Inr s1 \<and>
           pefs_dircache_insert env s1 pde pd ptk name encname = Inr (s2, pde) \<and>
           pefs_dircache_endupdate env s2 pd = Inr s3 \<and>
           pefs_dircache_lookup env s3 pd name = Inr (Some pde) \<and>
           pde_name (pde_mem s3 pde) = name \<and>
           pde_encname (pde_mem s3 pde) = encname \<and>
           pde_tkey (pde_mem s3 pde) = ptk"
proof -
  define s1 where "s1 = s\<lparr>pd_mem := (pd_mem s)(pd :=
      \<lparr>pd_pool = pdp, pd_gen = g1, pd_UPDATING = True, pd_SWAPEDHEADS = False,
       pd_heads0 = [], pd_heads1 = []\<rparr>)\<rparr>"
  define s0 where "s0 = s1\<lparr>pde_mem := (pde_mem s1)(pde := entry_init env pd ptk name encname)\<rparr>"
  define l where "l = dir_link s0 pd pde"
  define s2 where "s2 = hash_link l pd pde"
  define s3 where "s3 = s2\<lparr>pd_mem := (pd_mem s2)(pd := (pd_mem s2 pd)\<lparr>pd_UPDATING := False\<rparr>)\<rparr>"
  have b: "pefs_dircache_beginupdate env (pefs_dircache_create s pd pdp) pd g1 = Inr s1"
    using g by (simp add: pefs_dircache_beginupdate_def pefs_dircache_create_def bindF_def
        MPASS_def Let_def DIRCACHE_ACTIVEHEAD_def s1_def)
  have i: "pefs_dircache_insert env s1 pde pd ptk name encname = Inr (s2, pde)"
    using key len by (simp add: insert_eq s2_def l_def s0_def)
  have f0: "pd_UPDATING (pd_mem s0 pd)" "pd_gen (pd_mem s0 pd) = g1"
    "DIRCACHE_STALEHEAD (pd_mem s0 pd) = []" "pd_pool (pd_mem s0 pd) = pdp"
    "pdp_mem s0 = pdp_mem s" "dircache_hashmask s0 = dircache_hashmask s"
    "pde_mem s0 pde = entry_init env pd ptk name encname"
    by (simp_all add: s0_def s1_def DIRCACHE_STALEHEAD_def)
  note dl = dir_link_updating [OF f0(1), of pde, folded l_def]
  have fl: "pd_UPDATING (pd_mem l pd)" "pd_pool (pd_mem l pd) = pdp" "pdp_mem l = pdp_mem s"
    "dircache_hashmask l = dircache_hashmask s"
    "DIRCACHE_STALEHEAD (pd_mem l pd) = []"
    "pde_gen (pde_mem l pde) = g1" "pd_gen (pd_mem l pd) = g1"
    using dl f0 by (simp_all add: l_def dir_link_frame)
  have ent: "pde_dircache (pde_mem l pde) = pd"
    "pde_namehash (pde_mem l pde) = dircache_hashname env pd name"
    "pde_namelen (pde_mem l pde) = length name"
    "pde_name (pde_mem l pde) = name"
    "pde_encname (pde_mem l pde) = encname"
    "pde_tkey (pde_mem l pde) = ptk"
    by (simp_all add: l_def dir_link_frame f0 entry_init_def)
  have f2: "pd_mem s2 = pd_mem l" "pde_mem s2 = pde_mem l"
    "dircache_hashmask s2 = dircache_hashmask l"
    by (simp_all add: s2_def hash_link_frame)
  have e: "pefs_dircache_endupdate env s2 pd = Inr s3"
    unfolding s3_def by (rule endupdate_stale_Nil) (simp_all add: f2 fl)
  have pk: "pool_ok l (pdp_mem l (pd_pool (pd_mem l pd)))"
    using pool by (simp add: fl pool_ok_def)
  have f3: "pd_mem s3 pd = (pd_mem l pd)\<lparr>pd_UPDATING := False\<rparr>" "pde_mem s3 = pde_mem l"
    "pdp_mem s3 = pdp_mem s2" "dircache_hashmask s3 = dircache_hashmask l"
    by (simp_all add: s3_def f2)
  have bucket: "pdp_tbl (pdp_mem s3 (pd_pool (pd_mem s3 pd))) !
                  DIRCACHE_TBL s3 (dircache_hashname env pd name) =
                pde # pdp_tbl (pdp_mem l pdp) ! DIRCACHE_TBL l (dircache_hashname env pd name)"
    using hash_link_buckets(1) [OF pk, of pde, folded s2_def]
    by (simp add: f3 fl ent DIRCACHE_TBL_cong [OF f3(4)])
  have lk: "pefs_dircache_lookup env s3 pd name = Inr (Some pde)"
    by (rule lookup_bucket_head [OF pd _ _ bucket]) (simp_all add: f3 ent fl)
  have "pde_name (pde_mem s3 pde) = name" "pde_encname (pde_mem s3 pde) = encname"
    "pde_tkey (pde_mem s3 pde) = ptk"
    by (simp_all add: f3 ent)
  with b i e lk show ?thesis by blast
qed

text \<open>
  Claim C1.  On a cache just created over a pool whose tables have
  \<open>dircache_hashmask + 1\<close> buckets, with a non-zero generation \<open>g1\<close>, a key and a pair of
  names of valid lengths: \<open>pefs_dircache_beginupdate\<close>, \<open>pefs_dircache_insert\<close> and
  \<open>pefs_dircache_endupdate\<close> all return, and \<open>pefs_dircache_lookup\<close> of the name then
  returns the inserted entry, which holds the name, the encrypted name and the key.
\<close>

theorem C1_insert_commit_lookup:
  assumes pool: "pool_ok s (pdp_mem s pdp)"
    and pd: "pd \<noteq> NULL" and g: "g1 \<noteq> 0" and key: "ptk_key ptk \<noteq> NULL"
    and len: "0 < length name" "length name < sizeof_pde_name env"
      "0 < length encname" "length encname < sizeof_pde_encname env"
  shows "\<exists>s1 s2 s3.
           pefs_dircache_beginupdate env (pefs_dircache_create s pd pdp) pd g1 = Inr s1 \<and>
           pefs_dircache_insert env s1 pde pd ptk name encname = Inr (s2, pde) \<and>
           pefs_dircache_endupdate env s2 pd = Inr s3 \<and>
           pefs_dircache_lookup env s3 pd name = Inr (Some pde) \<and>
           pde_name (pde_mem s3 pde) = name \<and>
           pde_encname (pde_mem s3 pde) = encname \<and>
           pde_tkey (pde_mem s3 pde) = ptk"
  by (rule insert_commit_lookup [OF assms])

theorem C1_insert_commit_lookup_witness:
  "pool_ok example_boot (pdp_mem example_boot 1) \<and> (7 :: ptr) \<noteq> NULL \<and> (5 :: u_long) \<noteq> 0 \<and>
   ptk_key example_tkey \<noteq> NULL \<and>
   0 < length ''foo'' \<and> length ''foo'' < sizeof_pde_name example_env \<and>
   0 < length ''ABC'' \<and> length ''ABC'' < sizeof_pde_encname example_env \<and>
   (\<exists>s1 s2 s3.
      pefs_dircache_beginupdate example_env (pefs_dircache_create example_boot 7 1) 7 5 = Inr s1 \<and>
      pefs_dircache_insert example_env s1 3 7 example_tkey ''foo'' ''ABC'' = Inr (s2, 3) \<and>
      pefs_dircache_endupdate example_env s2 7 = Inr s3 \<and>
      pefs_dircache_lookup example_env s3 7 ''foo'' = Inr (Some 3) \<and>
      pde_name (pde_mem s3 3) = ''foo'' \<and>
      pde_encname (pde_mem s3 3) = ''ABC'' \<and>
      pde_tkey (pde_mem s3 3) = example_tkey)"
proof -
  have h: "(7 :: ptr) \<noteq> NULL" "(5 :: u_long) \<noteq> 0" "ptk_key example_tkey \<noteq> NULL"
    "0 < length ''foo''" "length ''foo'' < sizeof_pde_name example_env"
    "0 < length ''ABC''" "length ''ABC'' < sizeof_pde_encname example_env"
    by (simp_all add: NULL_def example_tkey_def example_env_def)
  from C1_insert_commit_lookup [OF example_boot_pool h, of 3] example_boot_pool h
  show ?thesis by blast
qed

subsection \<open>The example is well formed\<close>

lemma cache_inv_create:
  assumes "pool_ok s (pdp_mem s pdp)"
    and "\<And>b x. b \<in> set (pdp_tbl (pdp_mem s pdp)) \<union> set (pdp_enctbl (pdp_mem s pdp)) \<Longrightarrow>
           x \<in> set b \<Longrightarrow> pde_dircache (pde_mem s x) \<noteq> pd"
    and "\<And>b. b \<in> set (pdp_tbl (pdp_mem s pdp)) \<union> set (pdp_enctbl (pdp_mem s pdp)) \<Longrightarrow>
           distinct b"
  shows "cache_inv (pefs_dircache_create s pd pdp) pd"
proof -
  have "tbl_ok (pefs_dircache_create s pd pdp) pd tbl hf"
    if "set tbl \<subseteq> set (pdp_tbl (pdp_mem s pdp)) \<union> set (pdp_enctbl (pdp_mem s pdp))"
    for tbl hf
    unfolding tbl_ok_def
  proof (intro allI impI conjI ballI)
    fix i assume "i < length tbl"
    then have "tbl ! i \<in> set tbl" by simp
    with that have b: "tbl ! i \<in> set (pdp_tbl (pdp_mem s pdp)) \<union> set (pdp_enctbl (pdp_mem s pdp))"
      by blast
    show "distinct (tbl ! i)" by (rule assms(3) [OF b])
    fix x assume "x \<in> set (tbl ! i)" and "pde_dircache (pde_mem (pefs_dircache_create s pd pdp) x) = pd"
    with assms(2) [OF b] have False by (simp add: pefs_dircache_create_def)
    then show "x \<in> owned (pefs_dircache_create s pd pdp) pd"
      and "i = DIRCACHE_TBL (pefs_dircache_create s pd pdp) (hf (pde_mem (pefs_dircache_create s pd pdp) x))"
      by simp_all
  qed
  then have "tbl_ok (pefs_dircache_create s pd pdp) pd (pdp_tbl (pdp_mem s pdp)) pde_namehash"
    "tbl_ok (pefs_dircache_create s pd pdp) pd (pdp_enctbl (pdp_mem s pdp)) pde_encnamehash"
    by simp_all
  then show ?thesis
    using assms(1) by (simp add: cache_inv_def pefs_dircache_create_def pool_ok_def owned_def)
qed

lemma example_boot_buckets:
  "set (pdp_tbl (pdp_mem example_boot 1)) \<subseteq> {[]}"
  "set (pdp_enctbl (pdp_mem example_boot 1)) \<subseteq> {[]}"
  by (simp_all add: example_boot_def set_replicate_conv_if)

lemma example_created_inv: "cache_inv example_created 7"
  unfolding example_created_def
  by (rule cache_inv_create [OF example_boot_pool]) (use example_boot_buckets in auto)

lemma example_updating_inv: "cache_inv example_updating 7"
  by (rule cache_inv_cong [OF example_created_inv]) (simp_all add: example_updating_def)

lemma example_updating_fresh: "fresh_entry example_updating 7 3"
  using example_boot_buckets
  by (auto simp: fresh_entry_def NULL_def owned_def example_updating_cache
      example_updating_def example_created_def pefs_dircache_create_def)

lemma example_insert:
  "pefs_dircache_insert example_env example_updating 3 7 example_tkey ''foo'' ''ABC''
     = Inr (example_inserted, 3)"
  by (simp add: insert_eq example_inserted_def example_tkey_def example_env_def NULL_def)

lemma example_inserted_inv: "cache_inv example_inserted 7"
proof -
  have "ptk_key example_tkey \<noteq> NULL" "0 < length ''foo''"
    "length ''foo'' < sizeof_pde_name example_env" "0 < length ''ABC''"
    "length ''ABC'' < sizeof_pde_encname example_env"
    by (simp_all add: example_tkey_def example_env_def NULL_def)
  from insert_inv [OF example_updating_inv example_updating_fresh this]
  show ?thesis by (simp add: example_insert)
qed

lemma example_inserted_cache:
  "pd_mem example_inserted 7 =
     \<lparr>pd_pool = 1, pd_gen = 5, pd_UPDATING = True, pd_SWAPEDHEADS = False,
      pd_heads0 = [3], pd_heads1 = []\<rparr>"
  by (simp add: example_inserted_def hash_link_frame dir_link_def example_updating_cache
      INSERT_ACTIVEHEAD_def)

lemma example_inserted_entry:
  "pde_mem example_inserted 3 =
     (entry_init example_env 7 example_tkey ''foo'' ''ABC'')\<lparr>pde_gen := 5\<rparr>"
  by (simp add: example_inserted_def hash_link_frame dir_link_def example_updating_cache)

lemma example_endupdate:
  "pefs_dircache_endupdate example_env example_inserted 7 = Inr example_committed"
  unfolding example_committed_def
  by (rule endupdate_stale_Nil) (simp_all add: example_inserted_cache DIRCACHE_STALEHEAD_def)

lemma example_committed_cache:
  "pd_mem example_committed 7 =
     \<lparr>pd_pool = 1, pd_gen = 5, pd_UPDATING = False, pd_SWAPEDHEADS = False,
      pd_heads0 = [3], pd_heads1 = []\<rparr>"
  by (simp add: example_committed_def example_inserted_cache)

lemma example_committed_inv: "cache_inv example_committed 7"
  by (rule cache_inv_cong [OF example_inserted_inv]) (simp_all add: example_committed_def)

lemma example_committed_lookup:
  "pefs_dircache_lookup example_env example_committed 7 ''foo'' = Inr (Some 3)"
proof -
  have h: "(7 :: ptr) \<noteq> NULL" "(5 :: u_long) \<noteq> 0" "ptk_key example_tkey \<noteq> NULL"
    "0 < length ''foo''" "length ''foo'' < sizeof_pde_name example_env"
    "0 < length ''ABC''" "length ''ABC'' < sizeof_pde_encname example_env"
    by (simp_all add: NULL_def example_tkey_def example_env_def)
  have b: "pefs_dircache_beginupdate example_env (pefs_dircache_create example_boot 7 1) 7 5
             = Inr example_updating"
    using example_beginupdate by (simp add: example_created_def)
  from insert_commit_lookup [OF example_boot_pool h, of 3] obtain s1 s2 s3 where
    1: "pefs_dircache_beginupdate example_env (pefs_dircache_create example_boot 7 1) 7 5 = Inr s1"
    and 2: "pefs_dircache_insert example_env s1 3 7 example_tkey ''foo'' ''ABC'' = Inr (s2, 3)"
    and 3: "pefs_dircache_endupdate example_env s2 7 = Inr s3"
    and 4: "pefs_dircache_lookup example_env s3 7 ''foo'' = Inr (Some 3)"
    by blast
  from 1 b have "s1 = example_updating" by simp
  with 2 example_insert have "s2 = example_inserted" by simp
  with 3 example_endupdate have "s3 = example_committed" by simp
  with 4 show ?thesis by simp
qed

subsection \<open>A full pass over a well-formed cache\<close>

lemma beginupdate_eq:
  assumes "g \<noteq> 0" and "g \<noteq> pd_gen (pd_mem s pd)"
    and "DIRCACHE_ACTIVEHEAD (pd_mem s pd) = [] \<or> DIRCACHE_STALEHEAD (pd_mem s pd) = []"
  shows "pefs_dircache_beginupdate env s pd g = Inr (begin_result s pd g)"
  using assms expire_result_active [of s pd]
  by (auto simp: pefs_dircache_beginupdate_def begin_result_def bindF_def MPASS_def Let_def
      dircache_expire_eq)

lemma begin_result_frame:
  "pdp_mem (begin_result s pd g) = pdp_mem s"
  "dircache_hashmask (begin_result s pd g) = dircache_hashmask s"
  "dircache_entries (begin_result s pd g) = dircache_entries s"
  "pd_pool (pd_mem (begin_result s pd g) pd) = pd_pool (pd_mem s pd)"
  "pd_gen (pd_mem (begin_result s pd g) pd) = g"
  "pd_UPDATING (pd_mem (begin_result s pd g) pd)"
  "owned (begin_result s pd g) pd = owned s pd"
  "DIRCACHE_ACTIVEHEAD (pd_mem (begin_result s pd g) pd) = []"
  "pde_dircache (pde_mem (begin_result s pd g) x) = pde_dircache (pde_mem s x)"
  using expire_result_active [of s pd] expire_result_frame(10) [of s pd]
  by (auto simp: begin_result_def Let_def expire_result_frame expire_result_fields owned_heads)

lemma cache_inv_begin_result:
  assumes "cache_inv s pd"
  shows "cache_inv (begin_result s pd g) pd"
proof -
  define x where "x = (if DIRCACHE_ACTIVEHEAD (pd_mem s pd) \<noteq> [] then expire_result s pd else s)"
  have ix: "cache_inv x pd" using assms cache_inv_expire [OF assms] by (simp add: x_def)
  have "cache_inv (x\<lparr>pd_mem := (pd_mem x)(pd := (pd_mem x pd)\<lparr>pd_gen := g, pd_UPDATING := True\<rparr>)\<rparr>) pd"
    by (rule cache_inv_cong [OF ix]) simp_all
  then show ?thesis by (simp add: begin_result_def x_def Let_def)
qed

lemma pass_frees_all:
  assumes inv: "cache_inv s pd" and nn: "pd \<noteq> NULL"
    and g: "g \<noteq> 0" "g \<noteq> pd_gen (pd_mem s pd)"
    and one: "DIRCACHE_ACTIVEHEAD (pd_mem s pd) = [] \<or> DIRCACHE_STALEHEAD (pd_mem s pd) = []"
  shows "\<exists>s1 s2. pefs_dircache_beginupdate env s pd g = Inr s1 \<and>
           pd_UPDATING (pd_mem s1 pd) \<and> owned s1 pd = owned s pd \<and>
           pefs_dircache_endupdate env s1 pd = Inr s2 \<and>
           \<not> pd_UPDATING (pd_mem s2 pd) \<and> pd_gen (pd_mem s2 pd) = g \<and>
           cache_inv s2 pd \<and> owned s2 pd = {} \<and>
           dircache_entries s2 = dircache_entries s - of_nat (card (owned s pd)) \<and>
           (\<forall>x \<in> owned s pd.
              (\<forall>b \<in> set (pdp_tbl (pdp_mem s2 (pd_pool (pd_mem s2 pd)))). x \<notin> set b) \<and>
              (\<forall>b \<in> set (pdp_enctbl (pdp_mem s2 (pd_pool (pd_mem s2 pd)))). x \<notin> set b)) \<and>
           (\<forall>name. pefs_dircache_lookup env s2 pd name = Inr None) \<and>
           (\<forall>encname. pefs_dircache_enclookup env s2 pd encname = None)"
proof -
  define s1 where "s1 = begin_result s pd g"
  have b: "pefs_dircache_beginupdate env s pd g = Inr s1"
    unfolding s1_def by (rule beginupdate_eq [OF g one])
  have i1: "cache_inv s1 pd" unfolding s1_def by (rule cache_inv_begin_result [OF inv])
  have f1: "pd_UPDATING (pd_mem s1 pd)" "owned s1 pd = owned s pd"
    "DIRCACHE_ACTIVEHEAD (pd_mem s1 pd) = []" "pd_gen (pd_mem s1 pd) = g"
    "dircache_entries s1 = dircache_entries s"
    "\<And>x. pde_dircache (pde_mem s1 x) = pde_dircache (pde_mem s x)"
    by (simp_all add: s1_def begin_result_frame)
  from free_stale_inv [OF i1, of env] obtain t where
    ft: "free_stale env s1 pd = Inr t" and it: "cache_inv t pd"
    and st: "DIRCACHE_STALEHEAD (pd_mem t pd) = []"
    and at: "DIRCACHE_ACTIVEHEAD (pd_mem t pd) = DIRCACHE_ACTIVEHEAD (pd_mem s1 pd)"
    and nt: "dircache_entries t =
          dircache_entries s1 - of_nat (length (DIRCACHE_STALEHEAD (pd_mem s1 pd)))"
    by blast
  have frt: "free_frame pd s1 t" using free_stale_frame [OF ft] by simp
  define s2 where "s2 = t\<lparr>pd_mem := (pd_mem t)(pd := (pd_mem t pd)\<lparr>pd_UPDATING := False\<rparr>)\<rparr>"
  have e: "pefs_dircache_endupdate env s1 pd = Inr s2"
    using f1(1) ft by (simp add: pefs_dircache_endupdate_def bindF_def s2_def)
  have i2: "cache_inv s2 pd"
    by (rule cache_inv_cong [OF it]) (simp_all add: s2_def)
  have o2: "owned s2 pd = {}"
    using st at f1(3) by (simp add: owned_heads s2_def)
  have u2: "\<not> pd_UPDATING (pd_mem s2 pd)" "pd_gen (pd_mem s2 pd) = g"
    using frt f1(4) by (simp_all add: s2_def free_frame_def)
  have c: "card (owned s pd) = length (DIRCACHE_STALEHEAD (pd_mem s1 pd))"
    using card_owned [OF i1] f1 by simp
  have n2: "dircache_entries s2 = dircache_entries s - of_nat (card (owned s pd))"
    using nt f1(5) c by (simp add: s2_def)
  have dc: "pde_dircache (pde_mem s2 x) = pd" if "x \<in> owned s pd" for x
  proof -
    have "pde_mem s2 = pde_mem s1" using frt by (simp add: s2_def free_frame_def)
    with that inv f1(6) show ?thesis by (simp add: cache_inv_def)
  qed
  have nb: "(\<forall>b \<in> set (pdp_tbl (pdp_mem s2 (pd_pool (pd_mem s2 pd)))). x \<notin> set b) \<and>
            (\<forall>b \<in> set (pdp_enctbl (pdp_mem s2 (pd_pool (pd_mem s2 pd)))). x \<notin> set b)"
    if "x \<in> owned s pd" for x
    using empty_cache_buckets [OF i2 o2] dc [OF that] by blast
  have l: "pefs_dircache_lookup env s2 pd name = Inr None" for name
    using empty_cache_lookups(2) [OF i2 o2, of env name] nn u2 by simp
  show ?thesis
    using b f1(1,2) e u2 i2 o2 n2 nb l empty_cache_lookups(1) [OF i2 o2, of env]
    by blast
qed

subsection \<open>Eviction of entries that a pass does not reconfirm\<close>

lemma example_committed_facts:
  "(7 :: ptr) \<noteq> NULL" "\<not> pd_UPDATING (pd_mem example_committed 7)"
  "DIRCACHE_STALEHEAD (pd_mem example_committed 7) = []"
  "pd_gen (pd_mem example_committed 7) = 5"
  "owned example_committed 7 = {3}"
  by (simp_all add: NULL_def example_committed_cache DIRCACHE_STALEHEAD_def owned_def)

text \<open>
  The claim as stated asks only that \<open>g2\<close> differ from the committed generation.  With
  \<open>g2 = 0\<close> the call of \<open>pefs_dircache_beginupdate\<close> opens no pass, the call of
  \<open>pefs_dircache_endupdate\<close> frees nothing, and the lookup still returns the entry.
\<close>

theorem C2_zero_generation_counterexample:
  "(0 :: u_long) \<noteq> pd_gen (pd_mem example_committed 7) \<and>
   pefs_dircache_lookup example_env example_committed 7 ''foo'' = Inr (Some 3) \<and>
   bindF (pefs_dircache_beginupdate example_env example_committed 7 0) (\<lambda>s1.
     bindF (pefs_dircache_endupdate example_env s1 7) (\<lambda>s2.
       pefs_dircache_lookup example_env s2 7 ''foo'')) = Inr (Some 3)"
proof -
  have b: "pefs_dircache_beginupdate example_env example_committed 7 0 = Inr example_committed"
    by (simp add: pefs_dircache_beginupdate_def)
  have e: "pefs_dircache_endupdate example_env example_committed 7 = Inr example_committed"
    by (simp add: pefs_dircache_endupdate_def example_committed_cache DIRCACHE_ASSERT_def
        MPASS_def)
  show ?thesis
    by (simp add: b e bindF_def example_committed_lookup example_committed_facts)
qed

subsection \<open>An aborted pass frees nothing\<close>

lemma abortupdate_eq:
  assumes "pd_UPDATING (pd_mem s pd)"
  shows "pefs_dircache_abortupdate env s pd =
           Inr ((expire_result s pd)\<lparr>pd_mem := (pd_mem (expire_result s pd))(pd :=
                  (pd_mem (expire_result s pd) pd)\<lparr>pd_UPDATING := False\<rparr>)\<rparr>)"
  using assms heads_empty(1) [OF expire_result_active [of s pd]]
  by (simp add: pefs_dircache_abortupdate_def dircache_expire_eq bindF_def
      DIRCACHE_ASSERT_def MPASS_def)

lemma example_inserted_facts:
  "pd_UPDATING (pd_mem example_inserted 7)" "owned example_inserted 7 = {3}"
  by (simp_all add: example_inserted_cache owned_def)

theorem C7_purge_witness:
  "cache_inv example_committed 7 \<and> (7 :: ptr) \<noteq> NULL \<and>
   pefs_dircache_lookup example_env example_committed 7 ''foo'' = Inr (Some 3) \<and>
   (\<exists>s'. pefs_dircache_purge example_env example_committed 7 = Inr s' \<and>
      pd_heads0 (pd_mem s' 7) = [] \<and> pd_heads1 (pd_mem s' 7) = [] \<and>
      dircache_entries s' = dircache_entries example_committed - 1 \<and>
      (\<forall>b \<in> set (pdp_tbl (pdp_mem s' (pd_pool (pd_mem s' 7)))). 3 \<notin> set b) \<and>
      (\<forall>b \<in> set (pdp_enctbl (pdp_mem s' (pd_pool (pd_mem s' 7)))). 3 \<notin> set b) \<and>
      pefs_dircache_enclookup example_env s' 7 ''ABC'' = None \<and>
      pefs_dircache_lookup example_env s' 7 ''foo'' = Inr None)"
proof -
  from C7_purge [OF example_committed_inv example_committed_facts(1), of example_env]
  obtain s' where
    "pefs_dircache_purge example_env example_committed 7 = Inr s'"
    "pd_heads0 (pd_mem s' 7) = []" "pd_heads1 (pd_mem s' 7) = []"
    "dircache_entries s' =
       dircache_entries example_committed - of_nat (card (owned example_committed 7))"
    "\<forall>x \<in> owned example_committed 7.
       (\<forall>b \<in> set (pdp_tbl (pdp_mem s' (pd_pool (pd_mem s' 7)))). x \<notin> set b) \<and>
       (\<forall>b \<in> set (pdp_enctbl (pdp_mem s' (pd_pool (pd_mem s' 7)))). x \<notin> set b)"
    "\<forall>encname. pefs_dircache_enclookup example_env s' 7 encname = None"
    "\<forall>name. pefs_dircache_lookup example_env s' 7 name =
       (if INVARIANTS example_env \<and> pd_UPDATING (pd_mem example_committed 7)
        then Inl MPASS_failed else Inr None)"
    by blast
  then show ?thesis
    using example_committed_inv example_committed_facts example_committed_lookup
    by auto
qed

subsection \<open>The size of the bucket tables\<close>

lemma flsl_nat_upper: "n < 2 ^ flsl_nat n"
proof (induction n rule: flsl_nat.induct)
  case (1 n)
  show ?case
  proof (cases "n = 0")
    case True
    then show ?thesis by (simp add: flsl_nat.simps [of 0])
  next
    case False
    from "1.IH" [OF False] have "n div 2 < 2 ^ flsl_nat (n div 2)" .
    then have "n < 2 * 2 ^ flsl_nat (n div 2)" by linarith
    with False show ?thesis by (simp add: flsl_nat.simps [of n])
  qed
qed

lemma flsl_nat_lower: "n \<noteq> 0 \<Longrightarrow> 2 ^ flsl_nat n \<le> 2 * n"
proof (induction n rule: flsl_nat.induct)
  case (1 n)
  show ?case
  proof (cases "n div 2 = 0")
    case True
    with "1.prems" have "n = Suc 0" by linarith
    then show ?thesis by (simp add: flsl_nat.simps [of "Suc 0"] flsl_nat.simps [of 0])
  next
    case False
    from "1.IH" [OF "1.prems" False] have "2 ^ flsl_nat (n div 2) \<le> 2 * (n div 2)" .
    then have "2 * 2 ^ flsl_nat (n div 2) \<le> 2 * n" by linarith
    with "1.prems" show ?thesis by (simp add: flsl_nat.simps [of n])
  qed
qed

lemma flsl_nat_bound: "n < 2 ^ k \<Longrightarrow> flsl_nat n \<le> k"
proof (cases "n = 0")
  case True
  then show ?thesis by (simp add: flsl_nat.simps [of 0])
next
  case False
  assume "n < 2 ^ k"
  with flsl_nat_lower [OF False] have "(2::nat) ^ flsl_nat n < 2 ^ Suc k" by simp
  then have "flsl_nat n < Suc k" by (simp only: power_strict_increasing_iff)
  then show ?thesis by simp
qed

lemma tbl_size_unat:
  assumes "unat b < 2 ^ 63"
  shows "unat ((push_bit (flsl b) 1 - 1 :: u_long) + 1) = 2 ^ flsl b"
proof -
  have "flsl b \<le> 63" using flsl_nat_bound [OF assms] by (simp add: flsl_def)
  then have "(2 :: nat) ^ flsl b \<le> 2 ^ 63" by (simp only: power_increasing_iff)
  then have lt: "(2 :: nat) ^ flsl b < 2 ^ 64" by simp
  have "unat (push_bit (flsl b) 1 :: u_long) = take_bit 64 (push_bit (flsl b) (unat (1 :: u_long)))"
    unfolding unsigned_push_bit_eq by simp
  also have "\<dots> = 2 ^ flsl b mod 2 ^ 64"
    by (simp add: push_bit_eq_mult take_bit_eq_mod)
  also have "\<dots> = 2 ^ flsl b" using lt by simp
  finally show ?thesis by simp
qed

lemma malloc_heads_exact:
  assumes "0 < sizeof_listhead env" and "unat n * unat (sizeof_listhead env) < 2 ^ 64"
  shows "malloc_heads env n = unat n"
proof -
  have "unat (n * sizeof_listhead env) = unat n * unat (sizeof_listhead env)"
    using assms(2) by (simp add: unat_mult_lem [THEN iffD1])
  moreover have "0 < unat (sizeof_listhead env)"
    using assms(1) by (simp add: word_less_nat_alt)
  ultimately show ?thesis by (simp add: malloc_heads_def)
qed

lemma pool_init_fits:
  assumes "0 < sizeof_listhead env"
    and "unat (dircache_hashmask s + 1) * unat (sizeof_listhead env) < 2 ^ 64"
  shows "pefs_dircache_pool_init env s pdp =
           Inr (s\<lparr>pdp_mem := (pdp_mem s)(pdp :=
                \<lparr>pdp_tbl = replicate (unat (dircache_hashmask s + 1)) [],
                 pdp_enctbl = replicate (unat (dircache_hashmask s + 1)) []\<rparr>)\<rparr>)"
  by (simp add: pefs_dircache_pool_init_def Let_def malloc_heads_exact [OF assms])

lemma pool_init_wraps:
  assumes "sizeof_listhead env = 8" and "dircache_hashmask s = 2 ^ 61 - 1"
  shows "pefs_dircache_pool_init env s pdp = Inl Write_past_allocation"
  using assms by (simp add: pefs_dircache_pool_init_def Let_def malloc_heads_def)

lemma spec_round_pow2_least:
  assumes "0 < n"
  shows "n \<le> spec_round_pow2 n \<and> (\<forall>k. n \<le> 2 ^ k \<longrightarrow> spec_round_pow2 n \<le> 2 ^ k)"
proof (intro conjI allI impI)
  from flsl_nat_upper [of "n - 1"] assms show "n \<le> spec_round_pow2 n"
    by (simp add: spec_round_pow2_def)
  fix k assume "n \<le> 2 ^ k"
  with assms have "n - 1 < 2 ^ k" by simp
  then have "flsl_nat (n - 1) \<le> k" by (rule flsl_nat_bound)
  then show "spec_round_pow2 n \<le> 2 ^ k"
    by (simp add: spec_round_pow2_def)
qed

lemma flsl_values: "flsl 100 = 7" "flsl 1000 = 10" "flsl_nat 511 = 9"
  by (simp_all add: flsl_def flsl_nat.simps)

text \<open>
  Claim C9, amended.  In \<open>pefs_dircache_init\<close> the bucket count \<open>b\<close> is the configured
  count when that is at least \<open>DIRCACHE_SIZE_MIN\<close> and \<open>DIRCACHE_SIZE_DEFAULT\<close>
  (\<open>desiredvnodes / 8\<close>) otherwise.  When the byte count of a table of \<open>2 ^ flsl b\<close>
  buckets does not wrap, \<open>pefs_dircache_init\<close> and \<open>pefs_dircache_pool_create\<close> return,
  and the table size \<open>dircache_hashmask + 1\<close> is the power of two \<open>2 ^ flsl b\<close>: greater
  than \<open>b\<close>, at most \<open>2 * b\<close> for non-zero \<open>b\<close>, and at least twice the minimum once
  \<open>b\<close> reaches the minimum.  The pool returned has two tables of exactly that many empty
  buckets.
\<close>

theorem C9_table_size:
  assumes b: "b = (if TUNABLE_FETCH tun (dircache_buckets s) < DIRCACHE_SIZE_MIN
                   then DIRCACHE_SIZE_DEFAULT env else TUNABLE_FETCH tun (dircache_buckets s))"
    and sz: "0 < sizeof_listhead env"
    and fit: "2 ^ flsl b * unat (sizeof_listhead env) < 2 ^ 64"
  shows "\<exists>s1 s' pdp'.
           pefs_dircache_init env tun tg gp s = Inr s1 \<and>
           pefs_dircache_pool_create env s1 gp pdp = Inr (s', pdp') \<and>
           dircache_buckets s1 = b \<and>
           unat (dircache_hashmask s1 + 1) = 2 ^ flsl b \<and>
           unat b < 2 ^ flsl b \<and>
           (b \<noteq> 0 \<longrightarrow> 2 ^ flsl b \<le> 2 * unat b) \<and>
           (DIRCACHE_SIZE_MIN \<le> b \<longrightarrow> 2 * unat DIRCACHE_SIZE_MIN \<le> 2 ^ flsl b) \<and>
           pdp_tbl (pdp_mem s' pdp') = replicate (2 ^ flsl b) [] \<and>
           pdp_enctbl (pdp_mem s' pdp') = replicate (2 ^ flsl b) [] \<and>
           pool_ok s' (pdp_mem s' pdp')"
proof -
  have up: "unat b < 2 ^ flsl b" using flsl_nat_upper [of "unat b"] by (simp add: flsl_def)
  have z: "0 < unat (sizeof_listhead env)" using sz by (simp add: word_less_nat_alt)
  have "(2 :: nat) ^ flsl b < 2 ^ 64"
  proof -
    have "(2 :: nat) ^ flsl b \<le> 2 ^ flsl b * unat (sizeof_listhead env)"
      using z by simp
    from this fit show ?thesis by (rule le_less_trans)
  qed
  then have "flsl b < 64" by (simp only: power_strict_increasing_iff)
  then have "flsl b \<le> 63" by simp
  then have "(2 :: nat) ^ flsl b \<le> 2 ^ 63"
    by (simp only: power_increasing_iff)
  with up have lt: "unat b < 2 ^ 63" by linarith
  define g where "g = TUNABLE_FETCH tg (dircache_global_enable s)"
  define s0 where "s0 = s\<lparr>dircache_buckets := b,
                 dircache_hashmask := push_bit (flsl b) 1 - 1,
                 dircache_global_enable := g\<rparr>"
  have sz0: "unat (dircache_hashmask s0 + 1) = 2 ^ flsl b"
    using tbl_size_unat [OF lt] by (simp add: s0_def)
  have fit0: "unat (dircache_hashmask s0 + 1) * unat (sizeof_listhead env) < 2 ^ 64"
    using fit by (simp only: sz0)
  define t0 where "t0 = (\<lambda>pdp :: ptr. s0\<lparr>pdp_mem := (pdp_mem s0)(pdp :=
                \<lparr>pdp_tbl = replicate (unat (dircache_hashmask s0 + 1)) [],
                 pdp_enctbl = replicate (unat (dircache_hashmask s0 + 1)) []\<rparr>)\<rparr>)"
  have pi: "pefs_dircache_pool_init env s0 q = Inr (t0 q)" for q
    unfolding t0_def by (rule pool_init_fits [OF sz fit0])
  define s1 where "s1 = (if g then t0 gp else s0)"
  have "pefs_dircache_init env tun tg gp s =
          (if g then pefs_dircache_pool_init env s0 gp else Inr s0)"
    unfolding pefs_dircache_init_def Let_def s0_def g_def b by simp
  then have i: "pefs_dircache_init env tun tg gp s = Inr s1"
    by (simp only: pi s1_def if_distrib [of Inr, symmetric])
  have f1: "dircache_buckets s1 = b" "dircache_hashmask s1 = dircache_hashmask s0"
    "dircache_global_enable s1 = g"
    by (simp_all add: s1_def t0_def s0_def)
  define s' where "s' = (if g then s1 else t0 pdp)"
  define pdp' where "pdp' = (if g then gp else pdp)"
  have pi1: "\<not> g \<Longrightarrow> pefs_dircache_pool_init env s1 pdp = Inr (t0 pdp)"
    using pi [of pdp] by (simp add: s1_def)
  have c: "pefs_dircache_pool_create env s1 gp pdp = Inr (s', pdp')"
    using pi1 by (simp add: pefs_dircache_pool_create_def f1 s'_def pdp'_def bindF_def)
  have t: "pdp_mem s' pdp' =
             \<lparr>pdp_tbl = replicate (2 ^ flsl b) [], pdp_enctbl = replicate (2 ^ flsl b) []\<rparr>"
    "dircache_hashmask s' = dircache_hashmask s0"
    using sz0 by (simp_all add: s'_def pdp'_def s1_def t0_def)
  have lo: "2 ^ flsl b \<le> 2 * unat b" if "b \<noteq> 0"
  proof -
    from that have "unat b \<noteq> 0" by (simp add: unat_eq_0)
    from flsl_nat_lower [OF this] show ?thesis by (simp add: flsl_def)
  qed
  have mn: "2 * unat DIRCACHE_SIZE_MIN \<le> 2 ^ flsl b" if "DIRCACHE_SIZE_MIN \<le> b"
  proof -
    from that have "(2 :: nat) ^ 9 \<le> unat b"
      by (simp add: DIRCACHE_SIZE_MIN_def word_le_nat_alt)
    with up have "(2 :: nat) ^ 9 < 2 ^ flsl b" by linarith
    then have "9 < flsl b" by (simp only: power_strict_increasing_iff)
    then have "10 \<le> flsl b" by simp
    then have "(2 :: nat) ^ 10 \<le> 2 ^ flsl b" by (simp only: power_increasing_iff)
    then show ?thesis by (simp add: DIRCACHE_SIZE_MIN_def)
  qed
  have "Suc (unat (dircache_hashmask s0)) = 2 ^ flsl b"
  proof -
    have m: "dircache_hashmask s0 = push_bit (flsl b) 1 - 1" by (simp add: s0_def)
    have u: "unat (push_bit (flsl b) 1 :: u_long) = 2 ^ flsl b"
      using sz0 by (simp add: m)
    have "push_bit (flsl b) 1 \<noteq> (0 :: u_long)"
    proof
      assume "push_bit (flsl b) 1 = (0 :: u_long)"
      then have "unat (push_bit (flsl b) 1 :: u_long) = 0" by (simp only: unat_0)
      with u show False by simp
    qed
    with m u show ?thesis by (simp add: unat_minus_one)
  qed
  then have pk: "pool_ok s' (pdp_mem s' pdp')"
    by (simp add: pool_ok_def t)
  have sz1: "unat (dircache_hashmask s1 + 1) = 2 ^ flsl b" using sz0 by (simp add: f1)
  from i c f1(1) sz1 up lo mn t(1) pk show ?thesis by auto
qed

theorem C9_table_size_witness:
  "(1000 :: u_long) =
     (if TUNABLE_FETCH (Some 1000) (dircache_buckets example_static) < DIRCACHE_SIZE_MIN
      then DIRCACHE_SIZE_DEFAULT example_env
      else TUNABLE_FETCH (Some 1000) (dircache_buckets example_static)) \<and>
   0 < sizeof_listhead example_env \<and>
   2 ^ flsl 1000 * unat (sizeof_listhead example_env) < (2 :: nat) ^ 64 \<and>
   (\<exists>s1 s' pdp'.
      pefs_dircache_init example_env (Some 1000) None 1 example_static = Inr s1 \<and>
      pefs_dircache_pool_create example_env s1 1 2 = Inr (s', pdp') \<and>
      dircache_buckets s1 = 1000 \<and>
      unat (dircache_hashmask s1 + 1) = 1024 \<and>
      pdp_tbl (pdp_mem s' pdp') = replicate 1024 [] \<and>
      pdp_enctbl (pdp_mem s' pdp') = replicate 1024 [] \<and>
      pool_ok s' (pdp_mem s' pdp'))"
proof -
  have b: "(1000 :: u_long) =
     (if TUNABLE_FETCH (Some 1000) (dircache_buckets example_static) < DIRCACHE_SIZE_MIN
      then DIRCACHE_SIZE_DEFAULT example_env
      else TUNABLE_FETCH (Some 1000) (dircache_buckets example_static))"
    by (simp add: TUNABLE_FETCH_def DIRCACHE_SIZE_MIN_def)
  have sz: "0 < sizeof_listhead example_env" by (simp add: example_env_def)
  have fit: "2 ^ flsl 1000 * unat (sizeof_listhead example_env) < (2 :: nat) ^ 64"
    by (simp add: example_env_def flsl_values)
  from C9_table_size [OF b sz fit, of None 1 2] obtain s1 s' pdp' where
    "pefs_dircache_init example_env (Some 1000) None 1 example_static = Inr s1"
    "pefs_dircache_pool_create example_env s1 1 2 = Inr (s', pdp')"
    "dircache_buckets s1 = 1000"
    "unat (dircache_hashmask s1 + 1) = 2 ^ flsl 1000"
    "pdp_tbl (pdp_mem s' pdp') = replicate (2 ^ flsl 1000) []"
    "pdp_enctbl (pdp_mem s' pdp') = replicate (2 ^ flsl 1000) []"
    "pool_ok s' (pdp_mem s' pdp')"
    by blast
  then have "\<exists>s1 s' pdp'.
      pefs_dircache_init example_env (Some 1000) None 1 example_static = Inr s1 \<and>
      pefs_dircache_pool_create example_env s1 1 2 = Inr (s', pdp') \<and>
      dircache_buckets s1 = 1000 \<and>
      unat (dircache_hashmask s1 + 1) = 1024 \<and>
      pdp_tbl (pdp_mem s' pdp') = replicate 1024 [] \<and>
      pdp_enctbl (pdp_mem s' pdp') = replicate 1024 [] \<and>
      pool_ok s' (pdp_mem s' pdp')"
    by (intro exI [of _ s1] exI [of _ s'] exI [of _ pdp']) (simp add: flsl_values)
  with b sz fit show ?thesis by blast
qed

text \<open>
  The claim as stated: the table size is the configured count clamped to 512 and rounded to
  the next power of two, and is never below 512.  A configured count of 100 on a kernel with
  \<open>desiredvnodes = 8192\<close> gives 2048 buckets where the clamped and rounded count is 512;
  with \<open>desiredvnodes = 800\<close> it gives 128 buckets, below the minimum.
\<close>

theorem C9_table_size_counterexample:
  "pefs_dircache_init example_env (Some 100) None 1 example_static = Inr example_boot \<and>
   unat (dircache_hashmask example_boot + 1) = 2048 \<and>
   length (pdp_tbl (pdp_mem example_boot 1)) = 2048 \<and>
   spec_tbl_size 100 = 512 \<and>
   pefs_dircache_init small_env (Some 100) None 1 example_static = Inr small_boot \<and>
   unat (dircache_hashmask small_boot + 1) = 128 \<and>
   length (pdp_tbl (pdp_mem small_boot 1)) = 128 \<and>
   (128 :: nat) < unat DIRCACHE_SIZE_MIN"
  by (simp add: pefs_dircache_init_def TUNABLE_FETCH_def DIRCACHE_SIZE_MIN_def
      DIRCACHE_SIZE_DEFAULT_def example_env_def small_env_def example_static_def boot_state_def
      Let_def pefs_dircache_pool_init_def malloc_heads_def flsl_1024 flsl_values
      spec_tbl_size_def spec_round_pow2_def example_boot_def small_boot_def)

subsection \<open>Update passes with insertions and reconfirmations\<close>

lemma distinct_reconfirm:
  assumes "distinct (pd_heads0 d @ pd_heads1 d)"
  shows "distinct (pd_heads0 (INSERT_ACTIVEHEAD x (REMOVE_dir_entry x d)) @
                   pd_heads1 (INSERT_ACTIVEHEAD x (REMOVE_dir_entry x d)))"
  using assms
  by (cases "pd_SWAPEDHEADS d")
     (auto simp: INSERT_ACTIVEHEAD_def REMOVE_dir_entry_def dest: notin_set_remove1)

lemma owned_reconfirm:
  assumes "x \<in> set (pd_heads0 d) \<union> set (pd_heads1 d)"
  shows "set (pd_heads0 (INSERT_ACTIVEHEAD x (REMOVE_dir_entry x d))) \<union>
         set (pd_heads1 (INSERT_ACTIVEHEAD x (REMOVE_dir_entry x d))) =
         set (pd_heads0 d) \<union> set (pd_heads1 d)"
proof -
  have "set (remove1 x xs) \<union> {x} = set xs \<union> {x}" for xs :: "ptr list"
    by (induction xs) auto
  then have r: "insert x (set (remove1 x xs)) = insert x (set xs)" for xs :: "ptr list"
    by simp
  show ?thesis
    using assms r [of "pd_heads0 d"] r [of "pd_heads1 d"]
    by (cases "pd_SWAPEDHEADS d")
       (auto simp: INSERT_ACTIVEHEAD_def REMOVE_dir_entry_def)
qed

text \<open>An insertion during a pass.\<close>

lemma insert_step:
  assumes inv: "cache_inv s pd" and upd: "pd_UPDATING (pd_mem s pd)"
    and ok: "op_ok env s pd (Insert pde ptk name encname)"
  shows "\<exists>s'. run_op env s pd (Insert pde ptk name encname) = Inr s' \<and>
           cache_inv s' pd \<and> pd_UPDATING (pd_mem s' pd) \<and>
           pd_gen (pd_mem s' pd) = pd_gen (pd_mem s pd) \<and>
           DIRCACHE_STALEHEAD (pd_mem s' pd) = DIRCACHE_STALEHEAD (pd_mem s pd) \<and>
           DIRCACHE_ACTIVEHEAD (pd_mem s' pd) = pde # DIRCACHE_ACTIVEHEAD (pd_mem s pd) \<and>
           pde \<notin> owned s pd \<and>
           (\<forall>x. x \<noteq> pde \<longrightarrow> name_matches s' name' x = name_matches s name' x) \<and>
           (name_matches s' name' pde \<longleftrightarrow> name = name')"
proof -
  define s0 where "s0 = s\<lparr>pde_mem := (pde_mem s)(pde := entry_init env pd ptk name encname)\<rparr>"
  define l where "l = dir_link s0 pd pde"
  define s' where "s' = hash_link l pd pde"
  from ok have fr: "fresh_entry s pd pde" and key: "ptk_key ptk \<noteq> NULL"
    and len: "0 < length name" "length name < sizeof_pde_name env"
      "0 < length encname" "length encname < sizeof_pde_encname env"
    by simp_all
  have eq: "pefs_dircache_insert env s pde pd ptk name encname = Inr (s', pde)"
    using key len by (simp add: insert_eq s'_def l_def s0_def)
  from insert_inv [OF inv fr key len] eq have i': "cache_inv s' pd" by simp
  have u0: "pd_UPDATING (pd_mem s0 pd)" using upd by (simp add: s0_def)
  note dl = dir_link_updating [OF u0, of pde, folded l_def]
  have f: "pd_UPDATING (pd_mem s' pd)" "pd_gen (pd_mem s' pd) = pd_gen (pd_mem s pd)"
    "DIRCACHE_STALEHEAD (pd_mem s' pd) = DIRCACHE_STALEHEAD (pd_mem s pd)"
    "DIRCACHE_ACTIVEHEAD (pd_mem s' pd) = pde # DIRCACHE_ACTIVEHEAD (pd_mem s pd)"
    using dl u0 by (simp_all add: s'_def hash_link_frame l_def dir_link_frame) (simp_all add: s0_def)
  have n: "pde_namelen (pde_mem s' x) = pde_namelen (pde_mem s0 x)"
    "pde_name (pde_mem s' x) = pde_name (pde_mem s0 x)" for x
    by (simp_all add: s'_def hash_link_frame l_def dir_link_frame)
  have m1: "name_matches s' name' x = name_matches s name' x" if "x \<noteq> pde" for x
    using that by (simp add: name_matches_def n) (simp add: s0_def)
  have m2: "name_matches s' name' pde \<longleftrightarrow> name = name'"
    by (auto simp: name_matches_def n s0_def entry_init_def)
  have "pde \<notin> owned s pd" using fr by (simp add: fresh_entry_def)
  with eq i' f m1 m2 show ?thesis by (simp add: bindF_def)
qed

text \<open>A reconfirmation during a pass.\<close>

lemma reconfirm_step:
  assumes inv: "cache_inv s pd" and upd: "pd_UPDATING (pd_mem s pd)"
    and ok: "op_ok env s pd (Reconfirm pde)"
  shows "\<exists>s'. run_op env s pd (Reconfirm pde) = Inr s' \<and>
           cache_inv s' pd \<and> pd_UPDATING (pd_mem s' pd) \<and>
           pd_gen (pd_mem s' pd) = pd_gen (pd_mem s pd) \<and>
           DIRCACHE_STALEHEAD (pd_mem s' pd) = remove1 pde (DIRCACHE_STALEHEAD (pd_mem s pd)) \<and>
           DIRCACHE_ACTIVEHEAD (pd_mem s' pd) =
             pde # remove1 pde (DIRCACHE_ACTIVEHEAD (pd_mem s pd)) \<and>
           (\<forall>x. name_matches s' name' x = name_matches s name' x)"
proof -
  from ok have own: "pde \<in> owned s pd" by simp
  with inv have dc: "pde_dircache (pde_mem s pde) = pd" and nn: "pde \<noteq> NULL"
    by (simp_all add: cache_inv_def)
  define d' where "d' = INSERT_ACTIVEHEAD pde (REMOVE_dir_entry pde (pd_mem s pd))"
  define s' where "s' = s\<lparr>pde_mem := (pde_mem s)(pde :=
      (pde_mem s pde)\<lparr>pde_gen := pd_gen (pd_mem s pd)\<rparr>), pd_mem := (pd_mem s)(pd := d')\<rparr>"
  have eq: "pefs_dircache_update env s pde = Inr s'"
    using upd dc
    by (simp add: pefs_dircache_update_def dircache_update_def Let_def s'_def d'_def)
  have fd: "pd_pool d' = pd_pool (pd_mem s pd)" "pd_gen d' = pd_gen (pd_mem s pd)"
    "pd_UPDATING d' = pd_UPDATING (pd_mem s pd)"
    "DIRCACHE_STALEHEAD d' = remove1 pde (DIRCACHE_STALEHEAD (pd_mem s pd))"
    "DIRCACHE_ACTIVEHEAD d' = pde # remove1 pde (DIRCACHE_ACTIVEHEAD (pd_mem s pd))"
    by (simp_all add: d'_def)
  have o: "owned s' pd = owned s pd"
    using owned_reconfirm [of pde "pd_mem s pd"] own
    by (simp add: owned_def s'_def d'_def)
  have i': "cache_inv s' pd"
  proof (rule cache_inv_change [OF inv])
    show "distinct (pd_heads0 (pd_mem s' pd) @ pd_heads1 (pd_mem s' pd))"
      using distinct_reconfirm [of "pd_mem s pd" pde] inv
      by (simp add: s'_def d'_def cache_inv_def)
    show "owned s pd \<subseteq> owned s' pd" using o by simp
    show "x \<noteq> NULL \<and> pde_dircache (pde_mem s' x) = pd" if "x \<in> owned s' pd" for x
      using that o inv by (auto simp: cache_inv_def s'_def)
    show "pd_pool (pd_mem s' pd) = pd_pool (pd_mem s pd)" by (simp add: s'_def fd)
  qed (simp_all add: s'_def)
  have m: "name_matches s' name' x = name_matches s name' x" for x
    by (simp add: name_matches_def s'_def)
  from eq i' fd upd m show ?thesis by (simp add: s'_def)
qed

lemma run_ops_pass:
  assumes "cache_inv s pd" and "pd_UPDATING (pd_mem s pd)"
    and "pass_ok env s pd allowed cs"
    and "\<forall>t c. allowed t c \<longrightarrow> op_entry c \<noteq> E"
    and "E \<in> set (DIRCACHE_STALEHEAD (pd_mem s pd))"
  shows "\<exists>s'. run_ops env s pd cs = Inr s' \<and> cache_inv s' pd \<and>
           pd_UPDATING (pd_mem s' pd) \<and> pd_gen (pd_mem s' pd) = pd_gen (pd_mem s pd) \<and>
           E \<in> set (DIRCACHE_STALEHEAD (pd_mem s' pd)) \<and>
           ((\<forall>t c. allowed t c \<longrightarrow> \<not> op_names t name c) \<and>
            (\<forall>x \<in> set (DIRCACHE_ACTIVEHEAD (pd_mem s pd)). \<not> name_matches s name x) \<longrightarrow>
            (\<forall>x \<in> set (DIRCACHE_ACTIVEHEAD (pd_mem s' pd)). \<not> name_matches s' name x))"
  using assms
proof (induction cs arbitrary: s)
  case Nil
  then show ?case by simp
next
  case (Cons c cs)
  from Cons.prems(3) have ok: "op_ok env s pd c" and al: "allowed s c"
    and rest: "\<And>s1. run_op env s pd c = Inr s1 \<Longrightarrow> pass_ok env s1 pd allowed cs"
    by (auto split: sum.splits)
  from Cons.prems(4) al have ne: "op_entry c \<noteq> E" by blast
  have step: "\<exists>s1. run_op env s pd c = Inr s1 \<and> cache_inv s1 pd \<and>
           pd_UPDATING (pd_mem s1 pd) \<and> pd_gen (pd_mem s1 pd) = pd_gen (pd_mem s pd) \<and>
           E \<in> set (DIRCACHE_STALEHEAD (pd_mem s1 pd)) \<and>
           (\<not> op_names s name c \<and>
            (\<forall>x \<in> set (DIRCACHE_ACTIVEHEAD (pd_mem s pd)). \<not> name_matches s name x) \<longrightarrow>
            (\<forall>x \<in> set (DIRCACHE_ACTIVEHEAD (pd_mem s1 pd)). \<not> name_matches s1 name x))"
  proof (cases c)
    case (Insert pde ptk nm encnm)
    from insert_step [OF Cons.prems(1,2) ok [unfolded Insert], where name' = name] obtain s1 where
      r: "run_op env s pd (Insert pde ptk nm encnm) = Inr s1" "cache_inv s1 pd"
        "pd_UPDATING (pd_mem s1 pd)" "pd_gen (pd_mem s1 pd) = pd_gen (pd_mem s pd)"
      and st: "DIRCACHE_STALEHEAD (pd_mem s1 pd) = DIRCACHE_STALEHEAD (pd_mem s pd)"
      and ac: "DIRCACHE_ACTIVEHEAD (pd_mem s1 pd) = pde # DIRCACHE_ACTIVEHEAD (pd_mem s pd)"
      and no: "pde \<notin> owned s pd"
      and m1: "\<forall>x. x \<noteq> pde \<longrightarrow> name_matches s1 name x = name_matches s name x"
      and m2: "name_matches s1 name pde \<longleftrightarrow> nm = name"
      by blast
    have "\<forall>x \<in> set (DIRCACHE_ACTIVEHEAD (pd_mem s1 pd)). \<not> name_matches s1 name x"
      if "\<not> op_names s name c"
        "\<forall>x \<in> set (DIRCACHE_ACTIVEHEAD (pd_mem s pd)). \<not> name_matches s name x"
    proof
      fix x assume x: "x \<in> set (DIRCACHE_ACTIVEHEAD (pd_mem s1 pd))"
      show "\<not> name_matches s1 name x"
      proof (cases "x = pde")
        case True
        with that(1) m2 Insert show ?thesis by simp
      next
        case False
        with x ac have "x \<in> set (DIRCACHE_ACTIVEHEAD (pd_mem s pd))" by simp
        with that(2) m1 False show ?thesis by simp
      qed
    qed
    with r st Cons.prems(5) Insert show ?thesis by auto
  next
    case (Reconfirm pde)
    from reconfirm_step [OF Cons.prems(1,2) ok [unfolded Reconfirm], where name' = name] obtain s1 where
      r: "run_op env s pd (Reconfirm pde) = Inr s1" "cache_inv s1 pd"
        "pd_UPDATING (pd_mem s1 pd)" "pd_gen (pd_mem s1 pd) = pd_gen (pd_mem s pd)"
      and st: "DIRCACHE_STALEHEAD (pd_mem s1 pd) = remove1 pde (DIRCACHE_STALEHEAD (pd_mem s pd))"
      and ac: "DIRCACHE_ACTIVEHEAD (pd_mem s1 pd) =
                 pde # remove1 pde (DIRCACHE_ACTIVEHEAD (pd_mem s pd))"
      and m: "\<forall>x. name_matches s1 name x = name_matches s name x"
      by blast
    from ne Reconfirm have "pde \<noteq> E" by simp
    with Cons.prems(5) st have e: "E \<in> set (DIRCACHE_STALEHEAD (pd_mem s1 pd))" by simp
    have "\<forall>x \<in> set (DIRCACHE_ACTIVEHEAD (pd_mem s1 pd)). \<not> name_matches s1 name x"
      if "\<not> op_names s name c"
        "\<forall>x \<in> set (DIRCACHE_ACTIVEHEAD (pd_mem s pd)). \<not> name_matches s name x"
    proof
      fix x assume x: "x \<in> set (DIRCACHE_ACTIVEHEAD (pd_mem s1 pd))"
      show "\<not> name_matches s1 name x"
      proof (cases "x = pde")
        case True
        with that(1) m Reconfirm show ?thesis by simp
      next
        case False
        with x ac have "x \<in> set (remove1 pde (DIRCACHE_ACTIVEHEAD (pd_mem s pd)))" by simp
        then have "x \<in> set (DIRCACHE_ACTIVEHEAD (pd_mem s pd))"
          by (rule set_remove1_subset [THEN subsetD])
        with that(2) m show ?thesis by simp
      qed
    qed
    with r e Reconfirm show ?thesis by auto
  qed
  then obtain s1 where
    r1: "run_op env s pd c = Inr s1" and i1: "cache_inv s1 pd"
    and u1: "pd_UPDATING (pd_mem s1 pd)" and g1: "pd_gen (pd_mem s1 pd) = pd_gen (pd_mem s pd)"
    and e1: "E \<in> set (DIRCACHE_STALEHEAD (pd_mem s1 pd))"
    and n1: "\<not> op_names s name c \<and>
            (\<forall>x \<in> set (DIRCACHE_ACTIVEHEAD (pd_mem s pd)). \<not> name_matches s name x) \<longrightarrow>
            (\<forall>x \<in> set (DIRCACHE_ACTIVEHEAD (pd_mem s1 pd)). \<not> name_matches s1 name x)"
    by blast
  from Cons.IH [OF i1 u1 rest [OF r1] Cons.prems(4) e1] obtain s' where
    r': "run_ops env s1 pd cs = Inr s'" "cache_inv s' pd" "pd_UPDATING (pd_mem s' pd)"
      "pd_gen (pd_mem s' pd) = pd_gen (pd_mem s1 pd)"
      "E \<in> set (DIRCACHE_STALEHEAD (pd_mem s' pd))"
    and n': "(\<forall>t c. allowed t c \<longrightarrow> \<not> op_names t name c) \<and>
            (\<forall>x \<in> set (DIRCACHE_ACTIVEHEAD (pd_mem s1 pd)). \<not> name_matches s1 name x) \<longrightarrow>
            (\<forall>x \<in> set (DIRCACHE_ACTIVEHEAD (pd_mem s' pd)). \<not> name_matches s' name x)"
    by blast
  have "run_ops env s pd (c # cs) = Inr s'" using r1 r'(1) by (simp add: bindF_def)
  moreover have "(\<forall>t c. allowed t c \<longrightarrow> \<not> op_names t name c) \<and>
            (\<forall>x \<in> set (DIRCACHE_ACTIVEHEAD (pd_mem s pd)). \<not> name_matches s name x) \<longrightarrow>
            (\<forall>x \<in> set (DIRCACHE_ACTIVEHEAD (pd_mem s' pd)). \<not> name_matches s' name x)"
    using n1 n' al by blast
  ultimately show ?case using r'(2,3,5) r'(4) g1 by simp
qed

lemma lookup_scan_no_match:
  "\<forall>x \<in> set b. pde_dircache (pde_mem s x) = pd \<longrightarrow> \<not> name_matches s name x \<Longrightarrow>
   lookup_scan s pd h name b = None"
  by (induction b) (auto simp: name_matches_def)

lemma lookup_no_match:
  assumes inv: "cache_inv s pd" and nn: "pd \<noteq> NULL"
    and idle: "\<not> pd_UPDATING (pd_mem s pd)" and st: "DIRCACHE_STALEHEAD (pd_mem s pd) = []"
    and nm: "\<forall>x \<in> owned s pd. \<not> name_matches s name x"
  shows "pefs_dircache_lookup env s pd name = Inr None"
proof -
  let ?p = "pdp_mem s (pd_pool (pd_mem s pd))"
  let ?i = "DIRCACHE_TBL s (dircache_hashname env pd name)"
  have len: "length (pdp_tbl ?p) = Suc (unat (dircache_hashmask s))"
    using inv by (simp add: cache_inv_def pool_ok_def)
  then have i: "?i < length (pdp_tbl ?p)"
    using DIRCACHE_TBL_bound [of s "dircache_hashname env pd name"] by simp
  from inv have "tbl_ok s pd (pdp_tbl ?p) pde_namehash" by (simp add: cache_inv_def)
  with i have "\<forall>x \<in> set (pdp_tbl ?p ! ?i). pde_dircache (pde_mem s x) = pd \<longrightarrow> x \<in> owned s pd"
    unfolding tbl_ok_def by blast
  with nm have "\<forall>x \<in> set (pdp_tbl ?p ! ?i). pde_dircache (pde_mem s x) = pd \<longrightarrow>
      \<not> name_matches s name x" by blast
  then have "lookup_scan s pd (dircache_hashname env pd name) name (pdp_tbl ?p ! ?i) = None"
    by (rule lookup_scan_no_match)
  then show ?thesis
    using nn idle st by (simp add: pefs_dircache_lookup_def MPASS_def Let_def)
qed

lemma not_owned_not_in_buckets:
  assumes inv: "cache_inv s pd" and dc: "pde_dircache (pde_mem s x) = pd"
    and no: "x \<notin> owned s pd"
  shows "(\<forall>b \<in> set (pdp_tbl (pdp_mem s (pd_pool (pd_mem s pd)))). x \<notin> set b) \<and>
         (\<forall>b \<in> set (pdp_enctbl (pdp_mem s (pd_pool (pd_mem s pd)))). x \<notin> set b)"
proof -
  have "x \<notin> set b" if ok: "tbl_ok s pd tbl hf" and b: "b \<in> set tbl" for tbl hf b
  proof
    assume x: "x \<in> set b"
    from b obtain i where "i < length tbl" "b = tbl ! i" by (auto simp: in_set_conv_nth)
    with ok have "\<forall>y \<in> set b. pde_dircache (pde_mem s y) = pd \<longrightarrow> y \<in> owned s pd"
      unfolding tbl_ok_def by blast
    with x dc no show False by blast
  qed
  with inv show ?thesis by (auto simp: cache_inv_def)
qed

lemma pass_frees_unconfirmed:
  assumes inv: "cache_inv s pd"
    and g: "g \<noteq> 0" "g \<noteq> pd_gen (pd_mem s pd)"
    and one: "DIRCACHE_ACTIVEHEAD (pd_mem s pd) = [] \<or> DIRCACHE_STALEHEAD (pd_mem s pd) = []"
    and own: "E \<in> owned s pd"
    and pass: "pass_ok env (begin_result s pd g) pd allowed cs"
    and avoid: "\<forall>t c. allowed t c \<longrightarrow> op_entry c \<noteq> E"
  shows "\<exists>s1 s2 s3. pefs_dircache_beginupdate env s pd g = Inr s1 \<and>
           pd_UPDATING (pd_mem s1 pd) \<and>
           run_ops env s1 pd cs = Inr s2 \<and>
           pefs_dircache_endupdate env s2 pd = Inr s3 \<and>
           \<not> pd_UPDATING (pd_mem s3 pd) \<and> pd_gen (pd_mem s3 pd) = g \<and>
           DIRCACHE_STALEHEAD (pd_mem s3 pd) = [] \<and>
           cache_inv s3 pd \<and> E \<notin> owned s3 pd \<and>
           owned s3 pd = set (DIRCACHE_ACTIVEHEAD (pd_mem s2 pd)) \<and>
           (\<forall>b \<in> set (pdp_tbl (pdp_mem s3 (pd_pool (pd_mem s3 pd)))). E \<notin> set b) \<and>
           (\<forall>b \<in> set (pdp_enctbl (pdp_mem s3 (pd_pool (pd_mem s3 pd)))). E \<notin> set b) \<and>
           ((\<forall>t c. allowed t c \<longrightarrow> \<not> op_names t name c) \<longrightarrow>
              (\<forall>x \<in> owned s3 pd. \<not> name_matches s3 name x))"
proof -
  define s1 where "s1 = begin_result s pd g"
  have b: "pefs_dircache_beginupdate env s pd g = Inr s1"
    unfolding s1_def by (rule beginupdate_eq [OF g one])
  have i1: "cache_inv s1 pd" unfolding s1_def by (rule cache_inv_begin_result [OF inv])
  have f1: "pd_UPDATING (pd_mem s1 pd)" "owned s1 pd = owned s pd"
    "DIRCACHE_ACTIVEHEAD (pd_mem s1 pd) = []" "pd_gen (pd_mem s1 pd) = g"
    by (simp_all add: s1_def begin_result_frame)
  have e1: "E \<in> set (DIRCACHE_STALEHEAD (pd_mem s1 pd))"
    using own f1(2,3) by (simp add: owned_heads)
  from run_ops_pass [OF i1 f1(1) pass [folded s1_def] avoid e1, of name] obtain s2 where
    r: "run_ops env s1 pd cs = Inr s2" and i2: "cache_inv s2 pd"
    and u2: "pd_UPDATING (pd_mem s2 pd)" and g2: "pd_gen (pd_mem s2 pd) = g"
    and e2: "E \<in> set (DIRCACHE_STALEHEAD (pd_mem s2 pd))"
    and n2: "(\<forall>t c. allowed t c \<longrightarrow> \<not> op_names t name c) \<longrightarrow>
            (\<forall>x \<in> set (DIRCACHE_ACTIVEHEAD (pd_mem s2 pd)). \<not> name_matches s2 name x)"
    using f1(3,4) by auto
  from free_stale_inv [OF i2, of env] obtain t where
    ft: "free_stale env s2 pd = Inr t" and it: "cache_inv t pd"
    and st: "DIRCACHE_STALEHEAD (pd_mem t pd) = []"
    and at: "DIRCACHE_ACTIVEHEAD (pd_mem t pd) = DIRCACHE_ACTIVEHEAD (pd_mem s2 pd)"
    by blast
  have frt: "free_frame pd s2 t" using free_stale_frame [OF ft] by simp
  define s3 where "s3 = t\<lparr>pd_mem := (pd_mem t)(pd := (pd_mem t pd)\<lparr>pd_UPDATING := False\<rparr>)\<rparr>"
  have e: "pefs_dircache_endupdate env s2 pd = Inr s3"
    using u2 ft by (simp add: pefs_dircache_endupdate_def bindF_def s3_def)
  have i3: "cache_inv s3 pd"
    by (rule cache_inv_cong [OF it]) (simp_all add: s3_def)
  have f3: "\<not> pd_UPDATING (pd_mem s3 pd)" "pd_gen (pd_mem s3 pd) = g"
    "DIRCACHE_STALEHEAD (pd_mem s3 pd) = []" "pde_mem s3 = pde_mem s2"
    using frt g2 st by (simp_all add: s3_def free_frame_def)
  have o3: "owned s3 pd = set (DIRCACHE_ACTIVEHEAD (pd_mem s2 pd))"
    using st at by (simp add: owned_heads s3_def)
  have "distinct (DIRCACHE_ACTIVEHEAD (pd_mem s2 pd) @ DIRCACHE_STALEHEAD (pd_mem s2 pd))"
    using i2 unfolding cache_inv_def distinct_heads by blast
  with e2 have "E \<notin> set (DIRCACHE_ACTIVEHEAD (pd_mem s2 pd))" by auto
  with o3 have no: "E \<notin> owned s3 pd" by simp
  have "E \<in> owned s2 pd" using e2 by (simp add: owned_heads)
  with i2 have "pde_dircache (pde_mem s3 E) = pd" by (simp add: cache_inv_def f3)
  from not_owned_not_in_buckets [OF i3 this no]
  have nb: "\<forall>b \<in> set (pdp_tbl (pdp_mem s3 (pd_pool (pd_mem s3 pd)))). E \<notin> set b"
    "\<forall>b \<in> set (pdp_enctbl (pdp_mem s3 (pd_pool (pd_mem s3 pd)))). E \<notin> set b"
    by blast+
  have nm: "\<forall>x \<in> owned s3 pd. \<not> name_matches s3 name x"
    if "\<forall>t c. allowed t c \<longrightarrow> \<not> op_names t name c"
    using n2 that o3 by (simp add: name_matches_def f3)
  from b f1(1) r e f3(1-3) i3 no o3 nb nm show ?thesis by blast
qed

text \<open>
  Claim C2, amended.  On a well-formed cache that is idle with an empty stale list (its
  entries are committed at the generation of the cache), take an entry \<open>E\<close> of the cache
  and a pass of a generation \<open>g2\<close> that is non-zero and differs from the generation of the
  cache: \<open>pefs_dircache_beginupdate\<close>, then any insertions and reconfirmations none of
  which reconfirms \<open>E\<close> or inserts or reconfirms an entry for the name, then
  \<open>pefs_dircache_endupdate\<close>.  All these calls return; \<open>E\<close> is freed (it is on no list
  of the cache and in no bucket of either table), the entries left are those on the active
  list at the end of the pass, and \<open>pefs_dircache_lookup\<close> of the name finds nothing.
\<close>

theorem C2_eviction_on_non_reconfirmation:
  assumes inv: "cache_inv s pd" and nn: "pd \<noteq> NULL"
    and idle: "\<not> pd_UPDATING (pd_mem s pd)" "DIRCACHE_STALEHEAD (pd_mem s pd) = []"
    and g: "g2 \<noteq> 0" "g2 \<noteq> pd_gen (pd_mem s pd)"
    and own: "E \<in> owned s pd"
    and pass: "\<forall>s1. pefs_dircache_beginupdate env s pd g2 = Inr s1 \<longrightarrow>
                 pass_ok env s1 pd (\<lambda>t c. op_entry c \<noteq> E \<and> \<not> op_names t name c) cs"
  shows "\<exists>s1 s2 s3. pefs_dircache_beginupdate env s pd g2 = Inr s1 \<and>
           pd_UPDATING (pd_mem s1 pd) \<and>
           run_ops env s1 pd cs = Inr s2 \<and>
           pefs_dircache_endupdate env s2 pd = Inr s3 \<and>
           \<not> pd_UPDATING (pd_mem s3 pd) \<and> pd_gen (pd_mem s3 pd) = g2 \<and>
           cache_inv s3 pd \<and> E \<notin> owned s3 pd \<and>
           owned s3 pd = set (DIRCACHE_ACTIVEHEAD (pd_mem s2 pd)) \<and>
           (\<forall>b \<in> set (pdp_tbl (pdp_mem s3 (pd_pool (pd_mem s3 pd)))). E \<notin> set b) \<and>
           (\<forall>b \<in> set (pdp_enctbl (pdp_mem s3 (pd_pool (pd_mem s3 pd)))). E \<notin> set b) \<and>
           pefs_dircache_lookup env s3 pd name = Inr None"
proof -
  have one: "DIRCACHE_ACTIVEHEAD (pd_mem s pd) = [] \<or> DIRCACHE_STALEHEAD (pd_mem s pd) = []"
    using idle(2) by simp
  have "pefs_dircache_beginupdate env s pd g2 = Inr (begin_result s pd g2)"
    by (rule beginupdate_eq [OF g one])
  with pass have p: "pass_ok env (begin_result s pd g2) pd
      (\<lambda>t c. op_entry c \<noteq> E \<and> \<not> op_names t name c) cs" by blast
  have av: "\<forall>t c. (op_entry c \<noteq> E \<and> \<not> op_names t name c) \<longrightarrow> op_entry c \<noteq> E" by blast
  from pass_frees_unconfirmed [OF inv g one own p av, of name] obtain s1 s2 s3 where
    r: "pefs_dircache_beginupdate env s pd g2 = Inr s1" "pd_UPDATING (pd_mem s1 pd)"
      "run_ops env s1 pd cs = Inr s2" "pefs_dircache_endupdate env s2 pd = Inr s3"
      "\<not> pd_UPDATING (pd_mem s3 pd)" "pd_gen (pd_mem s3 pd) = g2"
      "DIRCACHE_STALEHEAD (pd_mem s3 pd) = []" "cache_inv s3 pd" "E \<notin> owned s3 pd"
      "owned s3 pd = set (DIRCACHE_ACTIVEHEAD (pd_mem s2 pd))"
      "\<forall>b \<in> set (pdp_tbl (pdp_mem s3 (pd_pool (pd_mem s3 pd)))). E \<notin> set b"
      "\<forall>b \<in> set (pdp_enctbl (pdp_mem s3 (pd_pool (pd_mem s3 pd)))). E \<notin> set b"
    and nm: "\<forall>x \<in> owned s3 pd. \<not> name_matches s3 name x"
    by blast
  have "pefs_dircache_lookup env s3 pd name = Inr None"
    by (rule lookup_no_match [OF r(8) nn r(5) r(7) nm])
  with r show ?thesis by blast
qed

subsection \<open>An aborted pass and the passes after it\<close>

text \<open>The buckets of the example hold the entry at address 3 only, so the address 4 is free for a second entry.\<close>

lemma cons_bucket_sets:
  assumes "\<forall>b \<in> set xs. set b \<subseteq> A"
  shows "\<forall>b \<in> set (xs[i := pde # xs ! i]). set b \<subseteq> insert pde A"
proof (cases "i < length xs")
  case True
  then have "xs ! i \<in> set xs" by simp
  with assms have "set (pde # xs ! i) \<subseteq> insert pde A" by auto
  moreover have "set (xs[i := pde # xs ! i]) \<subseteq> insert (pde # xs ! i) (set xs)"
    by (rule set_update_subset_insert)
  ultimately show ?thesis using assms by blast
next
  case False
  then have "xs[i := pde # xs ! i] = xs" by (simp add: list_update_beyond)
  with assms show ?thesis by auto
qed

lemma hash_link_bucket_sets:
  assumes "\<forall>b \<in> set (pdp_tbl (pdp_mem s (pd_pool (pd_mem s pd)))). set b \<subseteq> A"
    and "\<forall>b \<in> set (pdp_enctbl (pdp_mem s (pd_pool (pd_mem s pd)))). set b \<subseteq> A"
  shows "\<forall>b \<in> set (pdp_tbl (pdp_mem (hash_link s pd pde) (pd_pool (pd_mem s pd)))).
           set b \<subseteq> insert pde A"
    and "\<forall>b \<in> set (pdp_enctbl (pdp_mem (hash_link s pd pde) (pd_pool (pd_mem s pd)))).
           set b \<subseteq> insert pde A"
  using cons_bucket_sets [OF assms(1)] cons_bucket_sets [OF assms(2)]
  by (simp_all add: hash_link_def Let_def)

lemma example_inserted_buckets:
  "\<forall>b \<in> set (pdp_tbl (pdp_mem example_inserted 1)). set b \<subseteq> {3}"
  "\<forall>b \<in> set (pdp_enctbl (pdp_mem example_inserted 1)). set b \<subseteq> {3}"
proof -
  define l where "l = dir_link (example_updating\<lparr>pde_mem := (pde_mem example_updating)(3 :=
        entry_init example_env 7 example_tkey ''foo'' ''ABC'')\<rparr>) 7 3"
  have e: "example_inserted = hash_link l 7 3" by (simp add: example_inserted_def l_def)
  have fl: "pdp_mem l = pdp_mem example_boot" "pd_pool (pd_mem l 7) = 1"
    by (simp_all add: l_def dir_link_frame example_updating_cache)
       (simp add: example_updating_def example_created_def pefs_dircache_create_def)
  have "\<forall>b \<in> set (pdp_tbl (pdp_mem l (pd_pool (pd_mem l 7)))). set b \<subseteq> {}"
    "\<forall>b \<in> set (pdp_enctbl (pdp_mem l (pd_pool (pd_mem l 7)))). set b \<subseteq> {}"
    using example_boot_buckets by (auto simp: fl)
  from hash_link_bucket_sets [OF this, of 3]
  show "\<forall>b \<in> set (pdp_tbl (pdp_mem example_inserted 1)). set b \<subseteq> {3}"
    "\<forall>b \<in> set (pdp_enctbl (pdp_mem example_inserted 1)). set b \<subseteq> {3}"
    by (simp_all only: e fl)
qed

lemma example_new_entry_fresh:
  assumes "owned t 7 = {3}" and "pd_pool (pd_mem t 7) = 1"
    and "pdp_mem t = pdp_mem example_inserted"
  shows "op_ok example_env t 7 (Insert 4 example_tkey ''bar'' ''DEF'')"
proof -
  have "4 \<notin> set b" if "b \<in> set (pdp_tbl (pdp_mem example_inserted 1))" for b
    using bspec [OF example_inserted_buckets(1) that] by auto
  moreover have "4 \<notin> set b" if "b \<in> set (pdp_enctbl (pdp_mem example_inserted 1))" for b
    using bspec [OF example_inserted_buckets(2) that] by auto
  ultimately show ?thesis using assms
    by (simp add: fresh_entry_def NULL_def example_tkey_def example_env_def)
qed

lemma single_insert_pass:
  assumes "op_ok env t pd c" and "allowed t c"
  shows "pass_ok env t pd allowed [c]"
  using assms by (simp split: sum.splits)

text \<open>
  Claim C4.  \<open>pefs_dircache_abortupdate\<close> on a cache that is updating returns with the
  cache idle, its active list empty and every entry of its two lists on the stale list; the
  pool tables and the entry counter are as before, and the owner, names, hashes and key of
  every entry are unchanged.  When the cache is well formed, it still is, and a later pass
  of any non-zero generation with no insertion or update frees all these entries at its
  \<open>pefs_dircache_endupdate\<close>: the lists are empty, the counter has dropped by their number
  and none of them is left in a bucket.  More generally, a later pass of any non-zero
  generation that makes any insertions and reconfirmations, none of them a reconfirmation
  of an entry \<open>E\<close> that was on the lists of the cache at the abort, returns and frees \<open>E\<close>
  at its \<open>pefs_dircache_endupdate\<close>: \<open>E\<close> is on no list of the cache and in no bucket
  of either table, and the entries left are those on the active list at the end of the pass.
\<close>

theorem C4_abort_is_non_destructive:
  assumes upd: "pd_UPDATING (pd_mem s pd)"
  shows "\<exists>s1. pefs_dircache_abortupdate env s pd = Inr s1 \<and>
           \<not> pd_UPDATING (pd_mem s1 pd) \<and>
           DIRCACHE_ACTIVEHEAD (pd_mem s1 pd) = [] \<and>
           set (DIRCACHE_STALEHEAD (pd_mem s1 pd)) = owned s pd \<and>
           pdp_mem s1 = pdp_mem s \<and> pd_pool (pd_mem s1 pd) = pd_pool (pd_mem s pd) \<and>
           dircache_entries s1 = dircache_entries s \<and>
           (\<forall>x. pde_dircache (pde_mem s1 x) = pde_dircache (pde_mem s x) \<and>
                pde_name (pde_mem s1 x) = pde_name (pde_mem s x) \<and>
                pde_encname (pde_mem s1 x) = pde_encname (pde_mem s x) \<and>
                pde_namehash (pde_mem s1 x) = pde_namehash (pde_mem s x) \<and>
                pde_encnamehash (pde_mem s1 x) = pde_encnamehash (pde_mem s x) \<and>
                pde_tkey (pde_mem s1 x) = pde_tkey (pde_mem s x)) \<and>
           (cache_inv s pd \<and> pd \<noteq> NULL \<longrightarrow>
              cache_inv s1 pd \<and>
              (\<forall>g. g \<noteq> 0 \<longrightarrow>
                 (\<exists>s2 s3. pefs_dircache_beginupdate env s1 pd g = Inr s2 \<and>
                    owned s2 pd = owned s pd \<and>
                    pefs_dircache_endupdate env s2 pd = Inr s3 \<and>
                    owned s3 pd = {} \<and>
                    dircache_entries s3 = dircache_entries s - of_nat (card (owned s pd)) \<and>
                    (\<forall>x \<in> owned s pd.
                       (\<forall>b \<in> set (pdp_tbl (pdp_mem s3 (pd_pool (pd_mem s3 pd)))). x \<notin> set b) \<and>
                       (\<forall>b \<in> set (pdp_enctbl (pdp_mem s3 (pd_pool (pd_mem s3 pd)))). x \<notin> set b)))) \<and>
              (\<forall>g cs E. g \<noteq> 0 \<and> E \<in> owned s pd \<and>
                 (\<forall>s2. pefs_dircache_beginupdate env s1 pd g = Inr s2 \<longrightarrow>
                    pass_ok env s2 pd (\<lambda>t c. op_entry c \<noteq> E) cs) \<longrightarrow>
                 (\<exists>s2 s3 s4. pefs_dircache_beginupdate env s1 pd g = Inr s2 \<and>
                    run_ops env s2 pd cs = Inr s3 \<and>
                    pefs_dircache_endupdate env s3 pd = Inr s4 \<and>
                    cache_inv s4 pd \<and> E \<notin> owned s4 pd \<and>
                    owned s4 pd = set (DIRCACHE_ACTIVEHEAD (pd_mem s3 pd)) \<and>
                    (\<forall>b \<in> set (pdp_tbl (pdp_mem s4 (pd_pool (pd_mem s4 pd)))). E \<notin> set b) \<and>
                    (\<forall>b \<in> set (pdp_enctbl (pdp_mem s4 (pd_pool (pd_mem s4 pd)))). E \<notin> set b))))"
proof -
  define x where "x = expire_result s pd"
  define s1 where "s1 = x\<lparr>pd_mem := (pd_mem x)(pd := (pd_mem x pd)\<lparr>pd_UPDATING := False\<rparr>)\<rparr>"
  have ab: "pefs_dircache_abortupdate env s pd = Inr s1"
    unfolding s1_def x_def by (rule abortupdate_eq [OF upd])
  have fx: "DIRCACHE_ACTIVEHEAD (pd_mem x pd) = []" "owned x pd = owned s pd"
    "pdp_mem x = pdp_mem s" "pd_pool (pd_mem x pd) = pd_pool (pd_mem s pd)"
    "dircache_entries x = dircache_entries s" "pd_gen (pd_mem x pd) = 0"
    by (simp_all add: x_def expire_result_active expire_result_frame)
  have f1: "\<not> pd_UPDATING (pd_mem s1 pd)" "DIRCACHE_ACTIVEHEAD (pd_mem s1 pd) = []"
    "pdp_mem s1 = pdp_mem s" "pd_pool (pd_mem s1 pd) = pd_pool (pd_mem s pd)"
    "dircache_entries s1 = dircache_entries s" "pd_gen (pd_mem s1 pd) = 0"
    "owned s1 pd = owned s pd"
    using fx by (simp_all add: s1_def owned_heads)
  have st: "set (DIRCACHE_STALEHEAD (pd_mem s1 pd)) = owned s pd"
    using f1(2,7) by (simp add: owned_heads)
  have fields: "pde_dircache (pde_mem s1 y) = pde_dircache (pde_mem s y) \<and>
                pde_name (pde_mem s1 y) = pde_name (pde_mem s y) \<and>
                pde_encname (pde_mem s1 y) = pde_encname (pde_mem s y) \<and>
                pde_namehash (pde_mem s1 y) = pde_namehash (pde_mem s y) \<and>
                pde_encnamehash (pde_mem s1 y) = pde_encnamehash (pde_mem s y) \<and>
                pde_tkey (pde_mem s1 y) = pde_tkey (pde_mem s y)" for y
    by (simp add: s1_def x_def expire_result_fields)
  have later: "cache_inv s1 pd \<and>
              (\<forall>g. g \<noteq> 0 \<longrightarrow>
                 (\<exists>s2 s3. pefs_dircache_beginupdate env s1 pd g = Inr s2 \<and>
                    owned s2 pd = owned s pd \<and>
                    pefs_dircache_endupdate env s2 pd = Inr s3 \<and>
                    owned s3 pd = {} \<and>
                    dircache_entries s3 = dircache_entries s - of_nat (card (owned s pd)) \<and>
                    (\<forall>x \<in> owned s pd.
                       (\<forall>b \<in> set (pdp_tbl (pdp_mem s3 (pd_pool (pd_mem s3 pd)))). x \<notin> set b) \<and>
                       (\<forall>b \<in> set (pdp_enctbl (pdp_mem s3 (pd_pool (pd_mem s3 pd)))). x \<notin> set b))))"
    if inv: "cache_inv s pd" and nn: "pd \<noteq> NULL"
  proof -
    have ix: "cache_inv x pd" unfolding x_def by (rule cache_inv_expire [OF inv])
    have i1: "cache_inv s1 pd"
      by (rule cache_inv_cong [OF ix]) (simp_all add: s1_def)
    have "\<exists>s2 s3. pefs_dircache_beginupdate env s1 pd g = Inr s2 \<and>
                    owned s2 pd = owned s pd \<and>
                    pefs_dircache_endupdate env s2 pd = Inr s3 \<and>
                    owned s3 pd = {} \<and>
                    dircache_entries s3 = dircache_entries s - of_nat (card (owned s pd)) \<and>
                    (\<forall>x \<in> owned s pd.
                       (\<forall>b \<in> set (pdp_tbl (pdp_mem s3 (pd_pool (pd_mem s3 pd)))). x \<notin> set b) \<and>
                       (\<forall>b \<in> set (pdp_enctbl (pdp_mem s3 (pd_pool (pd_mem s3 pd)))). x \<notin> set b))"
      if g: "g \<noteq> 0" for g
    proof -
      have g': "g \<noteq> pd_gen (pd_mem s1 pd)" using g f1(6) by simp
      from pass_frees_all [OF i1 nn g g', of env] f1(2,5,7) show ?thesis
        by (simp only:) blast
    qed
    with i1 show ?thesis by blast
  qed
  have later2: "(\<forall>g cs E. g \<noteq> 0 \<and> E \<in> owned s pd \<and>
                 (\<forall>s2. pefs_dircache_beginupdate env s1 pd g = Inr s2 \<longrightarrow>
                    pass_ok env s2 pd (\<lambda>t c. op_entry c \<noteq> E) cs) \<longrightarrow>
                 (\<exists>s2 s3 s4. pefs_dircache_beginupdate env s1 pd g = Inr s2 \<and>
                    run_ops env s2 pd cs = Inr s3 \<and>
                    pefs_dircache_endupdate env s3 pd = Inr s4 \<and>
                    cache_inv s4 pd \<and> E \<notin> owned s4 pd \<and>
                    owned s4 pd = set (DIRCACHE_ACTIVEHEAD (pd_mem s3 pd)) \<and>
                    (\<forall>b \<in> set (pdp_tbl (pdp_mem s4 (pd_pool (pd_mem s4 pd)))). E \<notin> set b) \<and>
                    (\<forall>b \<in> set (pdp_enctbl (pdp_mem s4 (pd_pool (pd_mem s4 pd)))). E \<notin> set b)))"
    if inv: "cache_inv s pd" and nn: "pd \<noteq> NULL"
  proof (intro allI impI, elim conjE)
    fix g cs E
    assume g: "g \<noteq> 0" and own: "E \<in> owned s pd"
      and pass: "\<forall>s2. pefs_dircache_beginupdate env s1 pd g = Inr s2 \<longrightarrow>
                    pass_ok env s2 pd (\<lambda>t c. op_entry c \<noteq> E) cs"
    have ix: "cache_inv x pd" unfolding x_def by (rule cache_inv_expire [OF inv])
    have i1: "cache_inv s1 pd"
      by (rule cache_inv_cong [OF ix]) (simp_all add: s1_def)
    have g': "g \<noteq> pd_gen (pd_mem s1 pd)" using g f1(6) by simp
    have one: "DIRCACHE_ACTIVEHEAD (pd_mem s1 pd) = [] \<or> DIRCACHE_STALEHEAD (pd_mem s1 pd) = []"
      using f1(2) by simp
    have own1: "E \<in> owned s1 pd" using own f1(7) by simp
    have "pefs_dircache_beginupdate env s1 pd g = Inr (begin_result s1 pd g)"
      by (rule beginupdate_eq [OF g g' one])
    with pass have p: "pass_ok env (begin_result s1 pd g) pd (\<lambda>t c. op_entry c \<noteq> E) cs"
      by blast
    have av: "\<forall>t c. op_entry c \<noteq> E \<longrightarrow> op_entry c \<noteq> E" by blast
    from pass_frees_unconfirmed [OF i1 g g' one own1 p av, of "[]"]
    show "\<exists>s2 s3 s4. pefs_dircache_beginupdate env s1 pd g = Inr s2 \<and>
                    run_ops env s2 pd cs = Inr s3 \<and>
                    pefs_dircache_endupdate env s3 pd = Inr s4 \<and>
                    cache_inv s4 pd \<and> E \<notin> owned s4 pd \<and>
                    owned s4 pd = set (DIRCACHE_ACTIVEHEAD (pd_mem s3 pd)) \<and>
                    (\<forall>b \<in> set (pdp_tbl (pdp_mem s4 (pd_pool (pd_mem s4 pd)))). E \<notin> set b) \<and>
                    (\<forall>b \<in> set (pdp_enctbl (pdp_mem s4 (pd_pool (pd_mem s4 pd)))). E \<notin> set b)"
      by blast
  qed
  have limp: "cache_inv s pd \<and> pd \<noteq> NULL \<longrightarrow>
              cache_inv s1 pd \<and>
              (\<forall>g. g \<noteq> 0 \<longrightarrow>
                 (\<exists>s2 s3. pefs_dircache_beginupdate env s1 pd g = Inr s2 \<and>
                    owned s2 pd = owned s pd \<and>
                    pefs_dircache_endupdate env s2 pd = Inr s3 \<and>
                    owned s3 pd = {} \<and>
                    dircache_entries s3 = dircache_entries s - of_nat (card (owned s pd)) \<and>
                    (\<forall>x \<in> owned s pd.
                       (\<forall>b \<in> set (pdp_tbl (pdp_mem s3 (pd_pool (pd_mem s3 pd)))). x \<notin> set b) \<and>
                       (\<forall>b \<in> set (pdp_enctbl (pdp_mem s3 (pd_pool (pd_mem s3 pd)))). x \<notin> set b)))) \<and>
              (\<forall>g cs E. g \<noteq> 0 \<and> E \<in> owned s pd \<and>
                 (\<forall>s2. pefs_dircache_beginupdate env s1 pd g = Inr s2 \<longrightarrow>
                    pass_ok env s2 pd (\<lambda>t c. op_entry c \<noteq> E) cs) \<longrightarrow>
                 (\<exists>s2 s3 s4. pefs_dircache_beginupdate env s1 pd g = Inr s2 \<and>
                    run_ops env s2 pd cs = Inr s3 \<and>
                    pefs_dircache_endupdate env s3 pd = Inr s4 \<and>
                    cache_inv s4 pd \<and> E \<notin> owned s4 pd \<and>
                    owned s4 pd = set (DIRCACHE_ACTIVEHEAD (pd_mem s3 pd)) \<and>
                    (\<forall>b \<in> set (pdp_tbl (pdp_mem s4 (pd_pool (pd_mem s4 pd)))). E \<notin> set b) \<and>
                    (\<forall>b \<in> set (pdp_enctbl (pdp_mem s4 (pd_pool (pd_mem s4 pd)))). E \<notin> set b)))"
  proof (rule impI)
    assume a: "cache_inv s pd \<and> pd \<noteq> NULL"
    then have inv: "cache_inv s pd" and nn: "pd \<noteq> NULL" by simp_all
    from later [OF inv nn] later2 [OF inv nn]
    show "cache_inv s1 pd \<and>
              (\<forall>g. g \<noteq> 0 \<longrightarrow>
                 (\<exists>s2 s3. pefs_dircache_beginupdate env s1 pd g = Inr s2 \<and>
                    owned s2 pd = owned s pd \<and>
                    pefs_dircache_endupdate env s2 pd = Inr s3 \<and>
                    owned s3 pd = {} \<and>
                    dircache_entries s3 = dircache_entries s - of_nat (card (owned s pd)) \<and>
                    (\<forall>x \<in> owned s pd.
                       (\<forall>b \<in> set (pdp_tbl (pdp_mem s3 (pd_pool (pd_mem s3 pd)))). x \<notin> set b) \<and>
                       (\<forall>b \<in> set (pdp_enctbl (pdp_mem s3 (pd_pool (pd_mem s3 pd)))). x \<notin> set b)))) \<and>
              (\<forall>g cs E. g \<noteq> 0 \<and> E \<in> owned s pd \<and>
                 (\<forall>s2. pefs_dircache_beginupdate env s1 pd g = Inr s2 \<longrightarrow>
                    pass_ok env s2 pd (\<lambda>t c. op_entry c \<noteq> E) cs) \<longrightarrow>
                 (\<exists>s2 s3 s4. pefs_dircache_beginupdate env s1 pd g = Inr s2 \<and>
                    run_ops env s2 pd cs = Inr s3 \<and>
                    pefs_dircache_endupdate env s3 pd = Inr s4 \<and>
                    cache_inv s4 pd \<and> E \<notin> owned s4 pd \<and>
                    owned s4 pd = set (DIRCACHE_ACTIVEHEAD (pd_mem s3 pd)) \<and>
                    (\<forall>b \<in> set (pdp_tbl (pdp_mem s4 (pd_pool (pd_mem s4 pd)))). E \<notin> set b) \<and>
                    (\<forall>b \<in> set (pdp_enctbl (pdp_mem s4 (pd_pool (pd_mem s4 pd)))). E \<notin> set b)))"
      by (intro conjI) (elim conjE, assumption)+
  qed
  have fall: "\<forall>x. pde_dircache (pde_mem s1 x) = pde_dircache (pde_mem s x) \<and>
                pde_name (pde_mem s1 x) = pde_name (pde_mem s x) \<and>
                pde_encname (pde_mem s1 x) = pde_encname (pde_mem s x) \<and>
                pde_namehash (pde_mem s1 x) = pde_namehash (pde_mem s x) \<and>
                pde_encnamehash (pde_mem s1 x) = pde_encnamehash (pde_mem s x) \<and>
                pde_tkey (pde_mem s1 x) = pde_tkey (pde_mem s x)"
    by (intro allI fields)
  show ?thesis
    by (rule exI [of _ s1]) (intro conjI ab f1(1) f1(2) st f1(3) f1(4) f1(5) fall limp)
qed

theorem C4_abort_is_non_destructive_witness:
  "pd_UPDATING (pd_mem example_inserted 7) \<and> cache_inv example_inserted 7 \<and>
   (7 :: ptr) \<noteq> NULL \<and> (5 :: u_long) \<noteq> 0 \<and> 3 \<in> owned example_inserted 7 \<and>
   (\<exists>s1. pefs_dircache_abortupdate example_env example_inserted 7 = Inr s1 \<and>
      \<not> pd_UPDATING (pd_mem s1 7) \<and>
      DIRCACHE_ACTIVEHEAD (pd_mem s1 7) = [] \<and>
      set (DIRCACHE_STALEHEAD (pd_mem s1 7)) = {3} \<and>
      pdp_mem s1 = pdp_mem example_inserted \<and>
      dircache_entries s1 = dircache_entries example_inserted \<and>
      (\<exists>s2 s3 s4. pefs_dircache_beginupdate example_env s1 7 5 = Inr s2 \<and>
         run_ops example_env s2 7 [Insert 4 example_tkey ''bar'' ''DEF''] = Inr s3 \<and>
         pefs_dircache_endupdate example_env s3 7 = Inr s4 \<and>
         3 \<notin> owned s4 7 \<and>
         (\<forall>b \<in> set (pdp_tbl (pdp_mem s4 (pd_pool (pd_mem s4 7)))). 3 \<notin> set b)))"
proof -
  have g: "(5 :: u_long) \<noteq> 0" by simp
  have own: "3 \<in> owned example_inserted 7" by (simp add: example_inserted_facts)
  note c = C4_abort_is_non_destructive [OF example_inserted_facts(1), of example_env]
  from c obtain s1 where
    a: "pefs_dircache_abortupdate example_env example_inserted 7 = Inr s1"
    and r: "\<not> pd_UPDATING (pd_mem s1 7) \<and>
           DIRCACHE_ACTIVEHEAD (pd_mem s1 7) = [] \<and>
           set (DIRCACHE_STALEHEAD (pd_mem s1 7)) = owned example_inserted 7 \<and>
           pdp_mem s1 = pdp_mem example_inserted \<and> pd_pool (pd_mem s1 7) = pd_pool (pd_mem example_inserted 7) \<and>
           dircache_entries s1 = dircache_entries example_inserted \<and>
           (\<forall>x. pde_dircache (pde_mem s1 x) = pde_dircache (pde_mem example_inserted x) \<and>
                pde_name (pde_mem s1 x) = pde_name (pde_mem example_inserted x) \<and>
                pde_encname (pde_mem s1 x) = pde_encname (pde_mem example_inserted x) \<and>
                pde_namehash (pde_mem s1 x) = pde_namehash (pde_mem example_inserted x) \<and>
                pde_encnamehash (pde_mem s1 x) = pde_encnamehash (pde_mem example_inserted x) \<and>
                pde_tkey (pde_mem s1 x) = pde_tkey (pde_mem example_inserted x)) \<and>
           (cache_inv example_inserted 7 \<and> 7 \<noteq> NULL \<longrightarrow>
              cache_inv s1 7 \<and>
              (\<forall>g. g \<noteq> 0 \<longrightarrow>
                 (\<exists>s2 s3. pefs_dircache_beginupdate example_env s1 7 g = Inr s2 \<and>
                    owned s2 7 = owned example_inserted 7 \<and>
                    pefs_dircache_endupdate example_env s2 7 = Inr s3 \<and>
                    owned s3 7 = {} \<and>
                    dircache_entries s3 = dircache_entries example_inserted - of_nat (card (owned example_inserted 7)) \<and>
                    (\<forall>x \<in> owned example_inserted 7.
                       (\<forall>b \<in> set (pdp_tbl (pdp_mem s3 (pd_pool (pd_mem s3 7)))). x \<notin> set b) \<and>
                       (\<forall>b \<in> set (pdp_enctbl (pdp_mem s3 (pd_pool (pd_mem s3 7)))). x \<notin> set b)))) \<and>
              (\<forall>g cs E. g \<noteq> 0 \<and> E \<in> owned example_inserted 7 \<and>
                 (\<forall>s2. pefs_dircache_beginupdate example_env s1 7 g = Inr s2 \<longrightarrow>
                    pass_ok example_env s2 7 (\<lambda>t c. op_entry c \<noteq> E) cs) \<longrightarrow>
                 (\<exists>s2 s3 s4. pefs_dircache_beginupdate example_env s1 7 g = Inr s2 \<and>
                    run_ops example_env s2 7 cs = Inr s3 \<and>
                    pefs_dircache_endupdate example_env s3 7 = Inr s4 \<and>
                    cache_inv s4 7 \<and> E \<notin> owned s4 7 \<and>
                    owned s4 7 = set (DIRCACHE_ACTIVEHEAD (pd_mem s3 7)) \<and>
                    (\<forall>b \<in> set (pdp_tbl (pdp_mem s4 (pd_pool (pd_mem s4 7)))). E \<notin> set b) \<and>
                    (\<forall>b \<in> set (pdp_enctbl (pdp_mem s4 (pd_pool (pd_mem s4 7)))). E \<notin> set b))))"
    by (elim exE conjE) (intro that conjI; assumption)
  have r1: "\<not> pd_UPDATING (pd_mem s1 7)" "DIRCACHE_ACTIVEHEAD (pd_mem s1 7) = []"
    "set (DIRCACHE_STALEHEAD (pd_mem s1 7)) = {3}"
    "pdp_mem s1 = pdp_mem example_inserted"
    "pd_pool (pd_mem s1 7) = 1"
    "dircache_entries s1 = dircache_entries example_inserted"
    using r by (simp_all add: example_inserted_facts example_inserted_cache)
  from r have imp: "cache_inv example_inserted 7 \<and> 7 \<noteq> NULL \<longrightarrow>
              cache_inv s1 7 \<and>
              (\<forall>g. g \<noteq> 0 \<longrightarrow>
                 (\<exists>s2 s3. pefs_dircache_beginupdate example_env s1 7 g = Inr s2 \<and>
                    owned s2 7 = owned example_inserted 7 \<and>
                    pefs_dircache_endupdate example_env s2 7 = Inr s3 \<and>
                    owned s3 7 = {} \<and>
                    dircache_entries s3 = dircache_entries example_inserted - of_nat (card (owned example_inserted 7)) \<and>
                    (\<forall>x \<in> owned example_inserted 7.
                       (\<forall>b \<in> set (pdp_tbl (pdp_mem s3 (pd_pool (pd_mem s3 7)))). x \<notin> set b) \<and>
                       (\<forall>b \<in> set (pdp_enctbl (pdp_mem s3 (pd_pool (pd_mem s3 7)))). x \<notin> set b)))) \<and>
              (\<forall>g cs E. g \<noteq> 0 \<and> E \<in> owned example_inserted 7 \<and>
                 (\<forall>s2. pefs_dircache_beginupdate example_env s1 7 g = Inr s2 \<longrightarrow>
                    pass_ok example_env s2 7 (\<lambda>t c. op_entry c \<noteq> E) cs) \<longrightarrow>
                 (\<exists>s2 s3 s4. pefs_dircache_beginupdate example_env s1 7 g = Inr s2 \<and>
                    run_ops example_env s2 7 cs = Inr s3 \<and>
                    pefs_dircache_endupdate example_env s3 7 = Inr s4 \<and>
                    cache_inv s4 7 \<and> E \<notin> owned s4 7 \<and>
                    owned s4 7 = set (DIRCACHE_ACTIVEHEAD (pd_mem s3 7)) \<and>
                    (\<forall>b \<in> set (pdp_tbl (pdp_mem s4 (pd_pool (pd_mem s4 7)))). E \<notin> set b) \<and>
                    (\<forall>b \<in> set (pdp_enctbl (pdp_mem s4 (pd_pool (pd_mem s4 7)))). E \<notin> set b)))"
    by (elim conjE)
  note concl = mp [OF imp conjI [OF example_inserted_inv example_committed_facts(1)]]
  have i1: "cache_inv s1 7" using concl by (rule conjunct1)
  have new: "\<forall>g cs E. g \<noteq> 0 \<and> E \<in> owned example_inserted 7 \<and>
                 (\<forall>s2. pefs_dircache_beginupdate example_env s1 7 g = Inr s2 \<longrightarrow>
                    pass_ok example_env s2 7 (\<lambda>t c. op_entry c \<noteq> E) cs) \<longrightarrow>
                 (\<exists>s2 s3 s4. pefs_dircache_beginupdate example_env s1 7 g = Inr s2 \<and>
                    run_ops example_env s2 7 cs = Inr s3 \<and>
                    pefs_dircache_endupdate example_env s3 7 = Inr s4 \<and>
                    cache_inv s4 7 \<and> E \<notin> owned s4 7 \<and>
                    owned s4 7 = set (DIRCACHE_ACTIVEHEAD (pd_mem s3 7)) \<and>
                    (\<forall>b \<in> set (pdp_tbl (pdp_mem s4 (pd_pool (pd_mem s4 7)))). E \<notin> set b) \<and>
                    (\<forall>b \<in> set (pdp_enctbl (pdp_mem s4 (pd_pool (pd_mem s4 7)))). E \<notin> set b))"
    using concl by (elim conjE)
  have o1: "owned s1 7 = {3}" using r1(2,3) by (simp add: owned_heads)
  have s1: "s1 = (expire_result example_inserted 7)\<lparr>pd_mem :=
      (pd_mem (expire_result example_inserted 7))(7 :=
        (pd_mem (expire_result example_inserted 7) 7)\<lparr>pd_UPDATING := False\<rparr>)\<rparr>"
    using a abortupdate_eq [OF example_inserted_facts(1), of example_env] by simp
  have g': "(5 :: u_long) \<noteq> pd_gen (pd_mem s1 7)"
    by (simp add: s1 expire_result_frame)
  have one: "DIRCACHE_ACTIVEHEAD (pd_mem s1 7) = [] \<or> DIRCACHE_STALEHEAD (pd_mem s1 7) = []"
    using r1(2) by simp
  have b: "pefs_dircache_beginupdate example_env s1 7 5 = Inr (begin_result s1 7 5)"
    by (rule beginupdate_eq [OF g g' one])
  have ok: "op_ok example_env (begin_result s1 7 5) 7 (Insert 4 example_tkey ''bar'' ''DEF'')"
    by (rule example_new_entry_fresh) (simp_all add: begin_result_frame o1 r1)
  have p: "(\<forall>s2. pefs_dircache_beginupdate example_env s1 7 5 = Inr s2 \<longrightarrow>
                    pass_ok example_env s2 7 (\<lambda>t c. op_entry c \<noteq> 3) [Insert 4 example_tkey ''bar'' ''DEF''])"
  proof (intro allI impI)
    fix s2 assume "pefs_dircache_beginupdate example_env s1 7 5 = Inr s2"
    with b have "s2 = begin_result s1 7 5" by simp
    with ok show "pass_ok example_env s2 7 (\<lambda>t c. op_entry c \<noteq> 3)
        [Insert 4 example_tkey ''bar'' ''DEF'']"
      by (intro single_insert_pass) simp_all
  qed
  from new [THEN spec [where x = "5 :: u_long"],
      THEN spec [where x = "[Insert 4 example_tkey ''bar'' ''DEF'']"],
      THEN spec [where x = "3 :: ptr"]]
  have "(5 :: u_long) \<noteq> 0 \<and> 3 \<in> owned example_inserted 7 \<and>
                 (\<forall>s2. pefs_dircache_beginupdate example_env s1 7 5 = Inr s2 \<longrightarrow>
                    pass_ok example_env s2 7 (\<lambda>t c. op_entry c \<noteq> 3) [Insert 4 example_tkey ''bar'' ''DEF'']) \<longrightarrow>
      (\<exists>s2 s3 s4. pefs_dircache_beginupdate example_env s1 7 5 = Inr s2 \<and>
                    run_ops example_env s2 7 [Insert 4 example_tkey ''bar'' ''DEF''] = Inr s3 \<and>
                    pefs_dircache_endupdate example_env s3 7 = Inr s4 \<and>
                    cache_inv s4 7 \<and> 3 \<notin> owned s4 7 \<and>
                    owned s4 7 = set (DIRCACHE_ACTIVEHEAD (pd_mem s3 7)) \<and>
                    (\<forall>b \<in> set (pdp_tbl (pdp_mem s4 (pd_pool (pd_mem s4 7)))). 3 \<notin> set b) \<and>
                    (\<forall>b \<in> set (pdp_enctbl (pdp_mem s4 (pd_pool (pd_mem s4 7)))). 3 \<notin> set b))" .
  with g own p have "\<exists>s2 s3 s4. pefs_dircache_beginupdate example_env s1 7 5 = Inr s2 \<and>
                    run_ops example_env s2 7 [Insert 4 example_tkey ''bar'' ''DEF''] = Inr s3 \<and>
                    pefs_dircache_endupdate example_env s3 7 = Inr s4 \<and>
                    cache_inv s4 7 \<and> 3 \<notin> owned s4 7 \<and>
                    owned s4 7 = set (DIRCACHE_ACTIVEHEAD (pd_mem s3 7)) \<and>
                    (\<forall>b \<in> set (pdp_tbl (pdp_mem s4 (pd_pool (pd_mem s4 7)))). 3 \<notin> set b) \<and>
                    (\<forall>b \<in> set (pdp_enctbl (pdp_mem s4 (pd_pool (pd_mem s4 7)))). 3 \<notin> set b)" by blast
  then obtain s2 s3 s4 where
    "pefs_dircache_beginupdate example_env s1 7 5 = Inr s2"
    "run_ops example_env s2 7 [Insert 4 example_tkey ''bar'' ''DEF''] = Inr s3"
    "pefs_dircache_endupdate example_env s3 7 = Inr s4"
    "3 \<notin> owned s4 7"
    "\<forall>b \<in> set (pdp_tbl (pdp_mem s4 (pd_pool (pd_mem s4 7)))). 3 \<notin> set b"
    by (elim exE conjE)
  then have "\<exists>s2 s3 s4. pefs_dircache_beginupdate example_env s1 7 5 = Inr s2 \<and>
         run_ops example_env s2 7 [Insert 4 example_tkey ''bar'' ''DEF''] = Inr s3 \<and>
         pefs_dircache_endupdate example_env s3 7 = Inr s4 \<and>
         3 \<notin> owned s4 7 \<and>
         (\<forall>b \<in> set (pdp_tbl (pdp_mem s4 (pd_pool (pd_mem s4 7)))). 3 \<notin> set b)"
    by blast
  with a r1 have "\<exists>s1. pefs_dircache_abortupdate example_env example_inserted 7 = Inr s1 \<and>
      \<not> pd_UPDATING (pd_mem s1 7) \<and>
      DIRCACHE_ACTIVEHEAD (pd_mem s1 7) = [] \<and>
      set (DIRCACHE_STALEHEAD (pd_mem s1 7)) = {3} \<and>
      pdp_mem s1 = pdp_mem example_inserted \<and>
      dircache_entries s1 = dircache_entries example_inserted \<and>
      (\<exists>s2 s3 s4. pefs_dircache_beginupdate example_env s1 7 5 = Inr s2 \<and>
         run_ops example_env s2 7 [Insert 4 example_tkey ''bar'' ''DEF''] = Inr s3 \<and>
         pefs_dircache_endupdate example_env s3 7 = Inr s4 \<and>
         3 \<notin> owned s4 7 \<and>
         (\<forall>b \<in> set (pdp_tbl (pdp_mem s4 (pd_pool (pd_mem s4 7)))). 3 \<notin> set b))"
    by blast
  with example_inserted_facts(1) example_inserted_inv example_committed_facts(1) g own
  show ?thesis by (intro conjI)
qed

theorem C2_eviction_on_non_reconfirmation_witness:
  "cache_inv example_committed 7 \<and> (7 :: ptr) \<noteq> NULL \<and>
   \<not> pd_UPDATING (pd_mem example_committed 7) \<and>
   DIRCACHE_STALEHEAD (pd_mem example_committed 7) = [] \<and>
   (6 :: u_long) \<noteq> 0 \<and> 6 \<noteq> pd_gen (pd_mem example_committed 7) \<and>
   3 \<in> owned example_committed 7 \<and>
   pefs_dircache_lookup example_env example_committed 7 ''foo'' = Inr (Some 3) \<and>
   pass_ok example_env (begin_result example_committed 7 6) 7
     (\<lambda>t c. op_entry c \<noteq> 3 \<and> \<not> op_names t ''foo'' c) [Insert 4 example_tkey ''bar'' ''DEF''] \<and>
   (\<exists>s1 s2 s3. pefs_dircache_beginupdate example_env example_committed 7 6 = Inr s1 \<and>
      run_ops example_env s1 7 [Insert 4 example_tkey ''bar'' ''DEF''] = Inr s2 \<and>
      pefs_dircache_endupdate example_env s2 7 = Inr s3 \<and>
      3 \<notin> owned s3 7 \<and>
      pefs_dircache_lookup example_env s3 7 ''foo'' = Inr None)"
proof -
  have g: "(6 :: u_long) \<noteq> 0" "(6 :: u_long) \<noteq> pd_gen (pd_mem example_committed 7)"
    by (simp_all add: example_committed_facts)
  have own: "3 \<in> owned example_committed 7" by (simp add: example_committed_facts)
  have one: "DIRCACHE_ACTIVEHEAD (pd_mem example_committed 7) = [] \<or>
             DIRCACHE_STALEHEAD (pd_mem example_committed 7) = []"
    by (simp add: example_committed_facts)
  have b: "pefs_dircache_beginupdate example_env example_committed 7 6 =
             Inr (begin_result example_committed 7 6)"
    by (rule beginupdate_eq [OF g one])
  have ok: "op_ok example_env (begin_result example_committed 7 6) 7
              (Insert 4 example_tkey ''bar'' ''DEF'')"
    by (rule example_new_entry_fresh)
       (simp_all add: begin_result_frame example_committed_facts example_committed_cache,
        simp add: example_committed_def)
  have p: "pass_ok example_env (begin_result example_committed 7 6) 7
     (\<lambda>t c. op_entry c \<noteq> 3 \<and> \<not> op_names t ''foo'' c) [Insert 4 example_tkey ''bar'' ''DEF'']"
    by (intro single_insert_pass ok) simp
  have pall: "\<forall>s1. pefs_dircache_beginupdate example_env example_committed 7 6 = Inr s1 \<longrightarrow>
      pass_ok example_env s1 7 (\<lambda>t c. op_entry c \<noteq> 3 \<and> \<not> op_names t ''foo'' c)
        [Insert 4 example_tkey ''bar'' ''DEF'']"
    using b p by simp
  from C2_eviction_on_non_reconfirmation [OF example_committed_inv example_committed_facts(1-3)
      g own pall]
  obtain s1 s2 s3 where
    "pefs_dircache_beginupdate example_env example_committed 7 6 = Inr s1"
    "run_ops example_env s1 7 [Insert 4 example_tkey ''bar'' ''DEF''] = Inr s2"
    "pefs_dircache_endupdate example_env s2 7 = Inr s3"
    "3 \<notin> owned s3 7"
    "pefs_dircache_lookup example_env s3 7 ''foo'' = Inr None"
    by (elim exE conjE)
  then have "\<exists>s1 s2 s3. pefs_dircache_beginupdate example_env example_committed 7 6 = Inr s1 \<and>
      run_ops example_env s1 7 [Insert 4 example_tkey ''bar'' ''DEF''] = Inr s2 \<and>
      pefs_dircache_endupdate example_env s2 7 = Inr s3 \<and>
      3 \<notin> owned s3 7 \<and>
      pefs_dircache_lookup example_env s3 7 ''foo'' = Inr None"
    by blast
  with example_committed_inv example_committed_facts(1-3) g own example_committed_lookup p
  show ?thesis by (intro conjI)
qed

subsection \<open>Lookup by encrypted name\<close>

lemma enclookup_scan_find:
  "enclookup_scan s pd (dircache_hashname env pd encname) encname b =
     find (enc_matches env s pd encname) b"
  by (induction b) (simp_all add: enc_matches_def)

lemma enclookup_find:
  "pefs_dircache_enclookup env s pd encname =
     find (enc_matches env s pd encname) (ENCBUCKET env s pd encname)"
  by (simp add: pefs_dircache_enclookup_def Let_def enclookup_scan_find ENCBUCKET_def)

lemma find_first:
  assumes "x \<in> set b" and "P x"
  shows "\<exists>y. find P b = Some y \<and> P y \<and> y \<in> set b \<and> ((\<forall>z \<in> set b. P z \<longrightarrow> z = x) \<longrightarrow> y = x)"
proof -
  from assms have "find P b \<noteq> None" by (auto simp: find_None_iff)
  then obtain y where y: "find P b = Some y" by blast
  then have "P y" "y \<in> set b" by (auto simp: find_Some_iff)
  with y show ?thesis by blast
qed

subsection \<open>Entries on the lists are linked in their buckets\<close>

lemma enc_linked_change:
  assumes lk: "enc_linked env s pd"
    and sub: "owned s' pd \<subseteq> owned s pd"
    and f: "\<And>x. x \<in> owned s' pd \<Longrightarrow>
              pde_encnamelen (pde_mem s' x) = pde_encnamelen (pde_mem s x) \<and>
              pde_encname (pde_mem s' x) = pde_encname (pde_mem s x) \<and>
              pde_encnamehash (pde_mem s' x) = pde_encnamehash (pde_mem s x)"
    and h: "dircache_hashmask s' = dircache_hashmask s"
    and bk: "\<And>x i. x \<in> owned s' pd \<Longrightarrow>
               x \<in> set (pdp_enctbl (pdp_mem s (pd_pool (pd_mem s pd))) ! i) \<Longrightarrow>
               x \<in> set (pdp_enctbl (pdp_mem s' (pd_pool (pd_mem s' pd))) ! i)"
  shows "enc_linked env s' pd"
  unfolding enc_linked_def
proof (intro ballI)
  fix x assume x: "x \<in> owned s' pd"
  with sub have "x \<in> owned s pd" by blast
  with lk have "pde_encnamelen (pde_mem s x) = length (pde_encname (pde_mem s x)) \<and>
    pde_encnamehash (pde_mem s x) = dircache_hashname env pd (pde_encname (pde_mem s x)) \<and>
    x \<in> set (pdp_enctbl (pdp_mem s (pd_pool (pd_mem s pd))) !
               DIRCACHE_TBL s (pde_encnamehash (pde_mem s x)))"
    unfolding enc_linked_def by (rule bspec)
  then have a: "pde_encnamelen (pde_mem s x) = length (pde_encname (pde_mem s x))"
    "pde_encnamehash (pde_mem s x) = dircache_hashname env pd (pde_encname (pde_mem s x))"
    "x \<in> set (pdp_enctbl (pdp_mem s (pd_pool (pd_mem s pd))) !
               DIRCACHE_TBL s (pde_encnamehash (pde_mem s x)))"
    by blast+
  from bk [OF x a(3)] a(1,2) f [OF x]
  show "pde_encnamelen (pde_mem s' x) = length (pde_encname (pde_mem s' x)) \<and>
        pde_encnamehash (pde_mem s' x) = dircache_hashname env pd (pde_encname (pde_mem s' x)) \<and>
        x \<in> set (pdp_enctbl (pdp_mem s' (pd_pool (pd_mem s' pd))) !
               DIRCACHE_TBL s' (pde_encnamehash (pde_mem s' x)))"
    by (simp add: DIRCACHE_TBL_cong [OF h])
qed

lemma enc_linked_empty: "owned s pd = {} \<Longrightarrow> enc_linked env s pd"
  by (simp add: enc_linked_def)

lemma enc_linked_create: "enc_linked env (pefs_dircache_create s pd pdp) pd"
  by (rule enc_linked_empty) (simp add: pefs_dircache_create_def owned_def)

lemma enc_linked_expire:
  assumes "enc_linked env s pd"
  shows "enc_linked env (expire_result s pd) pd"
  by (rule enc_linked_change [OF assms])
     (simp_all add: expire_result_frame expire_result_fields)

lemma enc_linked_flags:
  assumes "enc_linked env s pd"
  shows "enc_linked env (s\<lparr>pd_mem := (pd_mem s)(pd := (pd_mem s pd)\<lparr>pd_gen := g, pd_UPDATING := u\<rparr>)\<rparr>) pd"
    and "enc_linked env (s\<lparr>pd_mem := (pd_mem s)(pd := (pd_mem s pd)\<lparr>pd_UPDATING := u\<rparr>)\<rparr>) pd"
  by (rule enc_linked_change [OF assms]; simp add: owned_def)+

lemma enc_linked_beginupdate:
  assumes lk: "enc_linked env s pd" and r: "pefs_dircache_beginupdate env s pd g = Inr s'"
  shows "enc_linked env s' pd"
proof -
  have "s' = s \<or> s' = (expire_result s pd)\<lparr>pd_mem := (pd_mem (expire_result s pd))(pd :=
            (pd_mem (expire_result s pd) pd)\<lparr>pd_gen := g, pd_UPDATING := True\<rparr>)\<rparr> \<or>
        s' = s\<lparr>pd_mem := (pd_mem s)(pd := (pd_mem s pd)\<lparr>pd_gen := g, pd_UPDATING := True\<rparr>)\<rparr>"
    using r
    by (auto simp: pefs_dircache_beginupdate_def bindF_def MPASS_def Let_def dircache_expire_eq
        split: if_splits)
  with lk enc_linked_flags(1) [OF lk] enc_linked_flags(1) [OF enc_linked_expire [OF lk]]
  show ?thesis by auto
qed

lemma enc_linked_abortupdate:
  assumes lk: "enc_linked env s pd" and r: "pefs_dircache_abortupdate env s pd = Inr s'"
  shows "enc_linked env s' pd"
proof -
  have "s' = s \<or> s' = (expire_result s pd)\<lparr>pd_mem := (pd_mem (expire_result s pd))(pd :=
            (pd_mem (expire_result s pd) pd)\<lparr>pd_UPDATING := False\<rparr>)\<rparr>"
    using r
    by (auto simp: pefs_dircache_abortupdate_def bindF_def MPASS_def Let_def dircache_expire_eq
        DIRCACHE_ASSERT_def split: if_splits)
  with lk enc_linked_flags(2) [OF enc_linked_expire [OF lk]]
  show ?thesis by auto
qed

lemma remove1_other_bucket:
  assumes "x \<in> set (xs ! i)" and "x \<noteq> pde"
  shows "x \<in> set (xs[j := remove1 pde (xs ! j)] ! i)"
proof (cases "i = j \<and> j < length xs")
  case True
  with assms show ?thesis by simp
next
  case False
  then have "xs[j := remove1 pde (xs ! j)] ! i = xs ! i"
    by (cases "i = j") (simp_all add: list_update_beyond)
  with assms show ?thesis by simp
qed

lemma cons_other_bucket:
  assumes "x \<in> set (xs ! i)"
  shows "x \<in> set (xs[j := pde # xs ! j] ! i)"
proof (cases "i = j \<and> j < length xs")
  case True
  with assms show ?thesis by simp
next
  case False
  then have "xs[j := pde # xs ! j] ! i = xs ! i"
    by (cases "i = j") (simp_all add: list_update_beyond)
  with assms show ?thesis by simp
qed

lemma enc_linked_entry_free:
  assumes inv: "cache_inv s pd" and lk: "enc_linked env s pd" and own: "pde \<in> owned s pd"
    and r: "dircache_entry_free env s pd pde = Inr s'"
  shows "enc_linked env s' pd"
proof -
  from inv own have d: "pde_dircache (pde_mem s pde) = pd" "pde \<noteq> NULL"
    by (simp_all add: cache_inv_def)
  from entry_free_inv [OF inv own, of env] r have o: "owned s' pd = owned s pd - {pde}" by auto
  note fr = entry_free_frame [OF r]
  have pool: "pd_pool (pd_mem s' pd) = pd_pool (pd_mem s pd)" by (simp add: fr)
  have tb: "pdp_enctbl (pdp_mem s' (pd_pool (pd_mem s pd))) =
        (pdp_enctbl (pdp_mem s (pd_pool (pd_mem s pd))))
          [DIRCACHE_TBL s (pde_encnamehash (pde_mem s pde)) :=
             remove1 pde (pdp_enctbl (pdp_mem s (pd_pool (pd_mem s pd))) !
               DIRCACHE_TBL s (pde_encnamehash (pde_mem s pde)))]"
    using r d by (auto simp: dircache_entry_free_eq Let_def split: if_splits)
  show ?thesis
  proof (rule enc_linked_change [OF lk])
    show "owned s' pd \<subseteq> owned s pd" using o by blast
    show "dircache_hashmask s' = dircache_hashmask s" by (rule fr)
    show "pde_encnamelen (pde_mem s' x) = pde_encnamelen (pde_mem s x) \<and>
          pde_encname (pde_mem s' x) = pde_encname (pde_mem s x) \<and>
          pde_encnamehash (pde_mem s' x) = pde_encnamehash (pde_mem s x)" for x
      by (simp add: fr)
    show "x \<in> set (pdp_enctbl (pdp_mem s' (pd_pool (pd_mem s' pd))) ! i)"
      if "x \<in> owned s' pd" "x \<in> set (pdp_enctbl (pdp_mem s (pd_pool (pd_mem s pd))) ! i)"
      for x i
    proof -
      from that(1) o have "x \<noteq> pde" by blast
      from remove1_other_bucket [OF that(2) this] show ?thesis by (simp only: pool tb)
    qed
  qed
qed

lemma enc_linked_free_stale:
  assumes inv: "cache_inv s pd" and lk: "enc_linked env s pd"
    and r: "free_stale env s pd = Inr s'"
  shows "cache_inv s' pd \<and> enc_linked env s' pd"
proof -
  have "(cache_inv s' pd \<and> enc_linked env s' pd) \<and> DIRCACHE_STALEHEAD (pd_mem s' pd) = []"
  proof (rule free_stale_rule [OF r, where P = "\<lambda>t. cache_inv t pd \<and> enc_linked env t pd"])
    show "cache_inv s pd \<and> enc_linked env s pd" using inv lk by simp
    fix t pde rest t1
    assume p: "cache_inv t pd \<and> enc_linked env t pd"
      and st: "DIRCACHE_STALEHEAD (pd_mem t pd) = pde # rest"
      and fr: "dircache_entry_free env t pd pde = Inr t1"
    from st have own: "pde \<in> owned t pd" by (simp add: owned_heads)
    from entry_free_inv [OF conjunct1 [OF p] own, of env] fr have "cache_inv t1 pd" by auto
    moreover have "enc_linked env t1 pd"
      by (rule enc_linked_entry_free [OF conjunct1 [OF p] conjunct2 [OF p] own fr])
    ultimately show "cache_inv t1 pd \<and> enc_linked env t1 pd" by simp
  qed
  then show ?thesis by simp
qed

lemma enc_linked_endupdate:
  assumes inv: "cache_inv s pd" and lk: "enc_linked env s pd"
    and r: "pefs_dircache_endupdate env s pd = Inr s'"
  shows "enc_linked env s' pd"
proof (cases "pd_UPDATING (pd_mem s pd)")
  case False
  with r have "s' = s"
    by (auto simp: pefs_dircache_endupdate_def DIRCACHE_ASSERT_def MPASS_def split: if_splits)
  with lk show ?thesis by simp
next
  case True
  with r obtain s1 where s1: "free_stale env s pd = Inr s1"
    and e: "s' = s1\<lparr>pd_mem := (pd_mem s1)(pd := (pd_mem s1 pd)\<lparr>pd_UPDATING := False\<rparr>)\<rparr>"
    by (auto simp: pefs_dircache_endupdate_def bindF_def split: sum.splits)
  from enc_linked_free_stale [OF inv lk s1] have "enc_linked env s1 pd" by simp
  from enc_linked_flags(2) [OF this] show ?thesis by (simp only: e)
qed

lemma enc_linked_purge:
  assumes r: "pefs_dircache_purge env s pd = Inr s'" and nn: "pd \<noteq> NULL"
  shows "enc_linked env s' pd"
  using purge_heads [OF r nn] by (intro enc_linked_empty) (simp add: owned_heads)

lemma enc_linked_update:
  assumes inv: "cache_inv s pd" and lk: "enc_linked env s pd" and own: "pde \<in> owned s pd"
    and r: "pefs_dircache_update env s pde = Inr s'"
  shows "enc_linked env s' pd"
proof -
  from inv own have d: "pde_dircache (pde_mem s pde) = pd" by (simp add: cache_inv_def)
  define x where "x = expire_result s pd"
  have "s' = s \<or>
        s' = s\<lparr>pde_mem := (pde_mem s)(pde := (pde_mem s pde)\<lparr>pde_gen := pd_gen (pd_mem s pd)\<rparr>),
               pd_mem := (pd_mem s)(pd := INSERT_ACTIVEHEAD pde (REMOVE_dir_entry pde (pd_mem s pd)))\<rparr> \<or>
        s' = x\<lparr>pde_mem := (pde_mem x)(pde := (pde_mem x pde)\<lparr>pde_gen := 0\<rparr>)\<rparr>"
    using r d
    by (auto simp: pefs_dircache_update_def dircache_update_def Let_def bindF_def
        dircache_expire_eq x_def split: if_splits)
  moreover have "enc_linked env (s\<lparr>pde_mem := (pde_mem s)(pde :=
        (pde_mem s pde)\<lparr>pde_gen := pd_gen (pd_mem s pd)\<rparr>),
      pd_mem := (pd_mem s)(pd := INSERT_ACTIVEHEAD pde (REMOVE_dir_entry pde (pd_mem s pd)))\<rparr>) pd"
    using owned_reconfirm [of pde "pd_mem s pd"] own
    by (intro enc_linked_change [OF lk]) (simp_all add: owned_def)
  moreover have "enc_linked env (x\<lparr>pde_mem := (pde_mem x)(pde := (pde_mem x pde)\<lparr>pde_gen := 0\<rparr>)\<rparr>) pd"
    by (rule enc_linked_change [OF enc_linked_expire [OF lk, folded x_def]])
       (simp_all add: owned_def)
  ultimately show ?thesis using lk by blast
qed

lemma enc_linked_insert:
  assumes inv: "cache_inv s pd" and lk: "enc_linked env s pd"
    and fr: "fresh_entry s pd pde"
    and r: "pefs_dircache_insert env s pde pd ptk name encname = Inr (s', pde')"
  shows "enc_linked env s' pd"
proof -
  define s0 where "s0 = s\<lparr>pde_mem := (pde_mem s)(pde := entry_init env pd ptk name encname)\<rparr>"
  define l where "l = dir_link s0 pd pde"
  from r have e: "s' = hash_link l pd pde"
    by (auto simp: insert_eq l_def s0_def split: if_splits)
  have f0: "pd_mem s0 = pd_mem s" "pdp_mem s0 = pdp_mem s"
    "dircache_hashmask s0 = dircache_hashmask s" "owned s0 pd = owned s pd"
    by (simp_all add: s0_def owned_def)
  have fl: "pdp_mem l = pdp_mem s" "pd_pool (pd_mem l pd) = pd_pool (pd_mem s pd)"
    "dircache_hashmask l = dircache_hashmask s" "owned l pd = insert pde (owned s pd)"
    "pde_encnamehash (pde_mem l y) = pde_encnamehash (pde_mem s0 y)"
    "pde_encnamelen (pde_mem l y) = pde_encnamelen (pde_mem s0 y)"
    "pde_encname (pde_mem l y) = pde_encname (pde_mem s0 y)" for y
    by (simp_all add: l_def dir_link_frame f0)
  have pk: "pool_ok l (pdp_mem l (pd_pool (pd_mem l pd)))"
    using inv by (simp add: fl cache_inv_def pool_ok_def)
  have pool': "pd_pool (pd_mem s' pd) = pd_pool (pd_mem l pd)" by (simp add: e hash_link_frame)
  have tb: "pdp_enctbl (pdp_mem s' (pd_pool (pd_mem l pd))) =
      (pdp_enctbl (pdp_mem l (pd_pool (pd_mem l pd))))
        [DIRCACHE_TBL l (pde_encnamehash (pde_mem l pde)) :=
           pde # pdp_enctbl (pdp_mem l (pd_pool (pd_mem l pd))) !
             DIRCACHE_TBL l (pde_encnamehash (pde_mem l pde))]"
    by (simp add: e hash_link_def Let_def)
  have hd: "pdp_enctbl (pdp_mem s' (pd_pool (pd_mem l pd))) !
              DIRCACHE_TBL l (pde_encnamehash (pde_mem l pde)) =
            pde # pdp_enctbl (pdp_mem l (pd_pool (pd_mem l pd))) !
              DIRCACHE_TBL l (pde_encnamehash (pde_mem l pde))"
    unfolding e by (rule hash_link_buckets(2) [OF pk])
  have tc: "DIRCACHE_TBL s' h = DIRCACHE_TBL l h" "DIRCACHE_TBL l h = DIRCACHE_TBL s h" for h
    by (simp_all add: DIRCACHE_TBL_def e hash_link_frame fl)
  show ?thesis
    unfolding enc_linked_def
  proof (intro ballI)
    fix x assume "x \<in> owned s' pd"
    then have x: "x = pde \<or> x \<in> owned s pd \<and> x \<noteq> pde"
      by (auto simp: e hash_link_frame fl)
    have fs: "pde_encnamehash (pde_mem s' y) = pde_encnamehash (pde_mem s0 y)"
      "pde_encnamelen (pde_mem s' y) = pde_encnamelen (pde_mem s0 y)"
      "pde_encname (pde_mem s' y) = pde_encname (pde_mem s0 y)" for y
      by (simp_all add: e hash_link_frame fl)
    from x show "pde_encnamelen (pde_mem s' x) = length (pde_encname (pde_mem s' x)) \<and>
        pde_encnamehash (pde_mem s' x) = dircache_hashname env pd (pde_encname (pde_mem s' x)) \<and>
        x \<in> set (pdp_enctbl (pdp_mem s' (pd_pool (pd_mem s' pd))) !
               DIRCACHE_TBL s' (pde_encnamehash (pde_mem s' x)))"
    proof
      assume xp: "x = pde"
      have "pde \<in> set (pdp_enctbl (pdp_mem s' (pd_pool (pd_mem l pd))) !
               DIRCACHE_TBL l (pde_encnamehash (pde_mem l pde)))"
        by (simp only: hd) simp
      then show ?thesis
        by (simp add: xp fs pool' tc fl) (simp add: s0_def entry_init_def)
    next
      assume xo: "x \<in> owned s pd \<and> x \<noteq> pde"
      with lk have "pde_encnamelen (pde_mem s x) = length (pde_encname (pde_mem s x)) \<and>
        pde_encnamehash (pde_mem s x) = dircache_hashname env pd (pde_encname (pde_mem s x)) \<and>
        x \<in> set (pdp_enctbl (pdp_mem s (pd_pool (pd_mem s pd))) !
               DIRCACHE_TBL s (pde_encnamehash (pde_mem s x)))"
        unfolding enc_linked_def by blast
      then have a: "pde_encnamelen (pde_mem s x) = length (pde_encname (pde_mem s x))"
        "pde_encnamehash (pde_mem s x) = dircache_hashname env pd (pde_encname (pde_mem s x))"
        "x \<in> set (pdp_enctbl (pdp_mem s (pd_pool (pd_mem s pd))) !
               DIRCACHE_TBL s (pde_encnamehash (pde_mem s x)))"
        by blast+
      have m: "pde_mem s0 x = pde_mem s x" using xo by (simp add: s0_def)
      from a(3) have "x \<in> set (pdp_enctbl (pdp_mem l (pd_pool (pd_mem l pd))) !
               DIRCACHE_TBL s (pde_encnamehash (pde_mem s x)))"
        by (simp add: fl)
      from cons_other_bucket [OF this]
      have "x \<in> set (pdp_enctbl (pdp_mem s' (pd_pool (pd_mem l pd))) !
               DIRCACHE_TBL s (pde_encnamehash (pde_mem s x)))"
        by (simp only: tb)
      with a(1,2) show ?thesis by (simp add: fs m pool' tc)
    qed
  qed
qed

text \<open>Every state of an update pass is well formed, with its entries linked in their buckets.\<close>

lemma enc_linked_run_op:
  assumes inv: "cache_inv s pd" and upd: "pd_UPDATING (pd_mem s pd)"
    and lk: "enc_linked env s pd" and ok: "op_ok env s pd c"
  shows "\<exists>s'. run_op env s pd c = Inr s' \<and> cache_inv s' pd \<and>
           pd_UPDATING (pd_mem s' pd) \<and> enc_linked env s' pd"
proof (cases c)
  case (Insert pde ptk name encname)
  from insert_step [OF inv upd ok [unfolded Insert], of name] obtain s' where
    r: "run_op env s pd (Insert pde ptk name encname) = Inr s'" and i: "cache_inv s' pd"
    and u: "pd_UPDATING (pd_mem s' pd)" by blast
  from r have "pefs_dircache_insert env s pde pd ptk name encname = Inr (s', pde)"
    by (auto simp: insert_eq bindF_def split: if_splits)
  from enc_linked_insert [OF inv lk _ this] ok have "enc_linked env s' pd"
    by (simp add: Insert)
  with r i u show ?thesis by (simp only: Insert) blast
next
  case (Reconfirm pde)
  from reconfirm_step [OF inv upd ok [unfolded Reconfirm], where name' = "[]"] obtain s' where
    r: "run_op env s pd (Reconfirm pde) = Inr s'" and i: "cache_inv s' pd"
    and u: "pd_UPDATING (pd_mem s' pd)" by blast
  from r have "pefs_dircache_update env s pde = Inr s'" by simp
  from enc_linked_update [OF inv lk _ this] ok have "enc_linked env s' pd"
    by (simp add: Reconfirm)
  with r i u show ?thesis by (simp only: Reconfirm) blast
qed

lemma enc_linked_run_ops:
  assumes "cache_inv s pd" and "pd_UPDATING (pd_mem s pd)" and "enc_linked env s pd"
    and "pass_ok env s pd allowed cs"
  shows "\<exists>s'. run_ops env s pd cs = Inr s' \<and> cache_inv s' pd \<and>
           pd_UPDATING (pd_mem s' pd) \<and> enc_linked env s' pd"
  using assms
proof (induction cs arbitrary: s)
  case Nil
  then show ?case by simp
next
  case (Cons c cs)
  from Cons.prems(4) have ok: "op_ok env s pd c" by simp
  from enc_linked_run_op [OF Cons.prems(1-3) ok] obtain s1 where
    r: "run_op env s pd c = Inr s1" and i: "cache_inv s1 pd"
    and u: "pd_UPDATING (pd_mem s1 pd)" and l: "enc_linked env s1 pd" by blast
  from Cons.prems(4) r have "pass_ok env s1 pd allowed cs" by simp
  from Cons.IH [OF i u l this] r show ?case by (simp add: bindF_def)
qed

lemma take_all_eq:
  assumes "length ys = length xs" and "take (length xs) ys = xs"
  shows "ys = xs"
  using assms by simp

text \<open>
  Claim C3, amended.  \<open>pefs_dircache_enclookup\<close> returns the first entry of the bucket
  of the hash of the encrypted name whose stored hash, owner, length and bytes match; the
  test reads neither a generation nor the update flag, so the result is the same whatever
  the generation of the cache, its update flag and the generation stamps of the entries
  are.  On a well-formed cache whose entries are linked in their buckets, for every entry
  \<open>E\<close> on the lists of the cache the lookup of the encrypted name of \<open>E\<close> returns an
  entry of the cache with that encrypted name, also with any other generation, update flag
  and generation stamps; it returns \<open>E\<close> itself when no other entry of the cache has
  that encrypted name.
\<close>

theorem C3_enclookup_ignores_generation:
  "pefs_dircache_enclookup env s pd encname =
     find (enc_matches env s pd encname) (ENCBUCKET env s pd encname) \<and>
   pefs_dircache_enclookup env
     (s\<lparr>pd_mem := (pd_mem s)(pd := (pd_mem s pd)\<lparr>pd_gen := g, pd_UPDATING := u\<rparr>),
        pde_mem := (\<lambda>x. (pde_mem s x)\<lparr>pde_gen := f x\<rparr>)\<rparr>) pd encname =
     pefs_dircache_enclookup env s pd encname \<and>
   (cache_inv s pd \<and> enc_linked env s pd \<and> E \<in> owned s pd \<longrightarrow>
      (\<exists>E'. pefs_dircache_enclookup env s pd (pde_encname (pde_mem s E)) = Some E' \<and>
         pefs_dircache_enclookup env
           (s\<lparr>pd_mem := (pd_mem s)(pd := (pd_mem s pd)\<lparr>pd_gen := g, pd_UPDATING := u\<rparr>),
              pde_mem := (\<lambda>x. (pde_mem s x)\<lparr>pde_gen := f x\<rparr>)\<rparr>) pd
           (pde_encname (pde_mem s E)) = Some E' \<and>
         E' \<in> owned s pd \<and>
         pde_encname (pde_mem s E') = pde_encname (pde_mem s E) \<and>
         ((\<forall>x \<in> owned s pd. pde_encname (pde_mem s x) = pde_encname (pde_mem s E) \<longrightarrow> x = E)
            \<longrightarrow> E' = E)))"
proof (intro conjI impI)
  show "pefs_dircache_enclookup env s pd encname =
     find (enc_matches env s pd encname) (ENCBUCKET env s pd encname)"
    by (rule enclookup_find)
  let ?s' = "s\<lparr>pd_mem := (pd_mem s)(pd := (pd_mem s pd)\<lparr>pd_gen := g, pd_UPDATING := u\<rparr>),
        pde_mem := (\<lambda>x. (pde_mem s x)\<lparr>pde_gen := f x\<rparr>)\<rparr>"
  have ind: "pefs_dircache_enclookup env ?s' pd n = pefs_dircache_enclookup env s pd n" for n
  proof -
    have "enc_matches env ?s' pd n = enc_matches env s pd n"
      by (rule ext) (simp add: enc_matches_def)
    moreover have "ENCBUCKET env ?s' pd n = ENCBUCKET env s pd n"
      by (simp add: ENCBUCKET_def DIRCACHE_TBL_def)
    ultimately show ?thesis by (simp only: enclookup_find)
  qed
  show "pefs_dircache_enclookup env ?s' pd encname = pefs_dircache_enclookup env s pd encname"
    by (rule ind)
  assume h: "cache_inv s pd \<and> enc_linked env s pd \<and> E \<in> owned s pd"
  then have inv: "cache_inv s pd" and lk: "enc_linked env s pd" and own: "E \<in> owned s pd"
    by blast+
  define n where "n = pde_encname (pde_mem s E)"
  define tbl where "tbl = pdp_enctbl (pdp_mem s (pd_pool (pd_mem s pd)))"
  define i where "i = DIRCACHE_TBL s (dircache_hashname env pd n)"
  have lkx: "pde_encnamelen (pde_mem s x) = length (pde_encname (pde_mem s x)) \<and>
        pde_encnamehash (pde_mem s x) = dircache_hashname env pd (pde_encname (pde_mem s x)) \<and>
        x \<in> set (tbl ! DIRCACHE_TBL s (pde_encnamehash (pde_mem s x)))"
    if "x \<in> owned s pd" for x
    using lk that unfolding enc_linked_def tbl_def by blast
  from inv own have d: "pde_dircache (pde_mem s E) = pd" by (simp add: cache_inv_def)
  have b: "ENCBUCKET env s pd m = tbl ! DIRCACHE_TBL s (dircache_hashname env pd m)" for m
    by (simp add: ENCBUCKET_def tbl_def)
  have inb: "E \<in> set (ENCBUCKET env s pd n)"
    unfolding n_def b using lkx [OF own] by (elim conjE) (simp only:)
  have m: "enc_matches env s pd n E"
    using lkx [OF own] d by (simp add: enc_matches_def n_def)
  from find_first [of E "ENCBUCKET env s pd n" "enc_matches env s pd n", OF inb m]
  obtain E' where f: "find (enc_matches env s pd n) (ENCBUCKET env s pd n) = Some E'"
    and m': "enc_matches env s pd n E'" and inb': "E' \<in> set (ENCBUCKET env s pd n)"
    and u: "(\<forall>z \<in> set (ENCBUCKET env s pd n). enc_matches env s pd n z \<longrightarrow> z = E) \<longrightarrow> E' = E"
    by blast
  have r: "pefs_dircache_enclookup env s pd n = Some E'" by (simp only: enclookup_find f)
  have il: "i < length tbl"
    using inv DIRCACHE_TBL_bound [of s "dircache_hashname env pd n"]
    by (simp add: cache_inv_def pool_ok_def tbl_def i_def)
  have tok: "tbl_ok s pd tbl pde_encnamehash" using inv by (simp add: cache_inv_def tbl_def)
  have ow: "z \<in> owned s pd" if "z \<in> set (tbl ! i)" "pde_dircache (pde_mem s z) = pd" for z
    using tok il that unfolding tbl_ok_def by blast
  have mo: "z \<in> owned s pd \<and> pde_encname (pde_mem s z) = n"
    if z: "z \<in> set (ENCBUCKET env s pd n)" and mz: "enc_matches env s pd n z" for z
  proof -
    from mz have zd: "pde_dircache (pde_mem s z) = pd"
      and zl: "pde_encnamelen (pde_mem s z) = length n"
      and zt: "take (length n) (pde_encname (pde_mem s z)) = n"
      by (simp_all add: enc_matches_def)
    have zo: "z \<in> owned s pd" using z by (intro ow zd) (simp add: b i_def)
    from lkx [OF zo] zl have "length (pde_encname (pde_mem s z)) = length n" by simp
    from take_all_eq [OF this zt] zo show ?thesis by simp
  qed
  have o': "E' \<in> owned s pd" and n': "pde_encname (pde_mem s E') = n"
    using mo [OF inb' m'] by blast+
  have uq: "E' = E" if "\<forall>x \<in> owned s pd. pde_encname (pde_mem s x) = n \<longrightarrow> x = E"
  proof -
    have "\<forall>z \<in> set (ENCBUCKET env s pd n). enc_matches env s pd n z \<longrightarrow> z = E"
      using mo that by blast
    with u show ?thesis by blast
  qed
  show "\<exists>E'. pefs_dircache_enclookup env s pd (pde_encname (pde_mem s E)) = Some E' \<and>
         pefs_dircache_enclookup env ?s' pd (pde_encname (pde_mem s E)) = Some E' \<and>
         E' \<in> owned s pd \<and>
         pde_encname (pde_mem s E') = pde_encname (pde_mem s E) \<and>
         ((\<forall>x \<in> owned s pd. pde_encname (pde_mem s x) = pde_encname (pde_mem s E) \<longrightarrow> x = E)
            \<longrightarrow> E' = E)"
    unfolding n_def [symmetric]
    using r ind [of n] o' n' uq by (intro exI [of _ E']) simp
qed

lemma example_updating_encbucket:
  "pdp_enctbl (pdp_mem example_updating 1) ! DIRCACHE_TBL example_updating h = []"
proof -
  have p: "pool_ok example_updating (pdp_mem example_updating (pd_pool (pd_mem example_updating 7)))"
    using example_updating_inv by (simp add: cache_inv_def)
  then have "DIRCACHE_TBL example_updating h < length (pdp_enctbl (pdp_mem example_updating 1))"
    using DIRCACHE_TBL_bound [of example_updating h]
    by (simp add: pool_ok_def example_updating_cache)
  then have "pdp_enctbl (pdp_mem example_updating 1) ! DIRCACHE_TBL example_updating h
      \<in> set (pdp_enctbl (pdp_mem example_updating 1))" by simp
  moreover have "pdp_mem example_updating 1 = pdp_mem example_boot 1"
    by (simp add: example_updating_def example_created_def pefs_dircache_create_def)
  ultimately show ?thesis using example_boot_buckets(2) by auto
qed

lemma example_inserted_encbucket:
  "ENCBUCKET example_env example_inserted 7 ''ABC'' = [3]"
proof -
  define s0 where "s0 = example_updating\<lparr>pde_mem := (pde_mem example_updating)(3 :=
        entry_init example_env 7 example_tkey ''foo'' ''ABC'')\<rparr>"
  define l where "l = dir_link s0 7 3"
  have e: "example_inserted = hash_link l 7 3"
    by (simp add: example_inserted_def l_def s0_def)
  have fl: "pdp_mem l = pdp_mem example_updating" "pd_pool (pd_mem l 7) = 1"
    "dircache_hashmask l = dircache_hashmask example_updating"
    "pde_encnamehash (pde_mem l 3) = dircache_hashname example_env 7 ''ABC''"
    by (simp_all add: l_def s0_def dir_link_frame example_updating_cache entry_init_def)
  have pk: "pool_ok l (pdp_mem l (pd_pool (pd_mem l 7)))"
    using example_updating_inv
    by (simp add: fl cache_inv_def pool_ok_def example_updating_cache)
  have "ENCBUCKET example_env example_inserted 7 ''ABC'' =
        pdp_enctbl (pdp_mem (hash_link l 7 3) (pd_pool (pd_mem l 7))) !
          DIRCACHE_TBL l (pde_encnamehash (pde_mem l 3))"
    by (simp add: ENCBUCKET_def e hash_link_frame fl
        DIRCACHE_TBL_cong [OF hash_link_frame(3)])
  also have "\<dots> = 3 # pdp_enctbl (pdp_mem l (pd_pool (pd_mem l 7))) !
          DIRCACHE_TBL l (pde_encnamehash (pde_mem l 3))"
    by (rule hash_link_buckets(2) [OF pk])
  also have "\<dots> = [3]"
    using example_updating_encbucket
    by (simp add: fl DIRCACHE_TBL_cong [OF fl(3)])
  finally show ?thesis .
qed

lemma example_inserted_matches:
  "enc_matches example_env example_inserted 7 ''ABC'' 3"
  by (simp add: enc_matches_def example_inserted_entry entry_init_def)

lemma example_inserted_linked: "enc_linked example_env example_inserted 7"
proof -
  have "owned example_updating 7 = {}" by (simp add: owned_def example_updating_cache)
  from enc_linked_insert [OF example_updating_inv enc_linked_empty [OF this]
      example_updating_fresh example_insert]
  show ?thesis .
qed

theorem C3_enclookup_ignores_generation_witness:
  "pd_UPDATING (pd_mem example_inserted 7) \<and> pd_gen (pd_mem example_inserted 7) = 5 \<and>
   cache_inv example_inserted 7 \<and> enc_linked example_env example_inserted 7 \<and>
   3 \<in> owned example_inserted 7 \<and>
   pde_encname (pde_mem example_inserted 3) = ''ABC'' \<and>
   pefs_dircache_enclookup example_env example_inserted 7 ''ABC'' = Some 3 \<and>
   pefs_dircache_enclookup example_env
     (example_inserted\<lparr>pd_mem := (pd_mem example_inserted)(7 :=
          (pd_mem example_inserted 7)\<lparr>pd_gen := 9, pd_UPDATING := False\<rparr>),
        pde_mem := (\<lambda>x. (pde_mem example_inserted x)\<lparr>pde_gen := 0\<rparr>)\<rparr>) 7 ''ABC'' = Some 3"
proof -
  have own: "3 \<in> owned example_inserted 7" by (simp add: example_inserted_facts)
  have n: "pde_encname (pde_mem example_inserted 3) = ''ABC''"
    by (simp add: example_inserted_entry entry_init_def)
  have h: "cache_inv example_inserted 7 \<and> enc_linked example_env example_inserted 7 \<and>
           3 \<in> owned example_inserted 7"
    using example_inserted_inv example_inserted_linked own by (intro conjI)
  have u: "\<forall>x \<in> owned example_inserted 7.
             pde_encname (pde_mem example_inserted x) = pde_encname (pde_mem example_inserted 3)
               \<longrightarrow> x = 3"
    by (simp add: example_inserted_facts)
  note c = C3_enclookup_ignores_generation [where env = example_env and s = example_inserted
      and pd = 7 and E = 3 and g = 9 and u = False and f = "\<lambda>x. 0",
      THEN conjunct2, THEN conjunct2]
  from mp [OF c h] obtain E' where
    r: "pefs_dircache_enclookup example_env example_inserted 7
          (pde_encname (pde_mem example_inserted 3)) = Some E'"
       "pefs_dircache_enclookup example_env
          (example_inserted\<lparr>pd_mem := (pd_mem example_inserted)(7 :=
               (pd_mem example_inserted 7)\<lparr>pd_gen := 9, pd_UPDATING := False\<rparr>),
             pde_mem := (\<lambda>x. (pde_mem example_inserted x)\<lparr>pde_gen := 0\<rparr>)\<rparr>) 7
          (pde_encname (pde_mem example_inserted 3)) = Some E'"
    and q: "(\<forall>x \<in> owned example_inserted 7.
             pde_encname (pde_mem example_inserted x) = pde_encname (pde_mem example_inserted 3)
               \<longrightarrow> x = 3) \<longrightarrow> E' = 3"
    by (elim exE conjE)
  from q u have "E' = 3" by (rule mp)
  with r have "pefs_dircache_enclookup example_env example_inserted 7 ''ABC'' = Some 3"
    "pefs_dircache_enclookup example_env
       (example_inserted\<lparr>pd_mem := (pd_mem example_inserted)(7 :=
            (pd_mem example_inserted 7)\<lparr>pd_gen := 9, pd_UPDATING := False\<rparr>),
          pde_mem := (\<lambda>x. (pde_mem example_inserted x)\<lparr>pde_gen := 0\<rparr>)\<rparr>) 7 ''ABC'' = Some 3"
    by (simp_all only: n)
  with example_inserted_facts(1) example_inserted_cache example_inserted_inv
    example_inserted_linked own n
  show ?thesis by simp
qed

lemma example_two_insert:
  "pefs_dircache_insert example_env example_inserted 4 7 example_tkey ''bar'' ''ABC''
     = Inr (example_two, 4)"
  by (simp add: insert_eq example_two_def example_tkey_def example_env_def NULL_def)

text \<open>
  The claim as stated has the lookup return \<open>E\<close> for every entry \<open>E\<close> of the cache.
  \<open>pefs_dircache_insert\<close> does not look for an entry with the same encrypted name: after
  a second insertion with the encrypted name \<open>ABC\<close>, the entry at address 3 is still an
  entry of the cache with that encrypted name, linked in the bucket and matching, and the
  lookup returns the entry at address 4.
\<close>

theorem C3_duplicate_encname_counterexample:
  "pefs_dircache_insert example_env example_inserted 4 7 example_tkey ''bar'' ''ABC''
     = Inr (example_two, 4) \<and>
   3 \<in> owned example_two 7 \<and>
   pde_encname (pde_mem example_two 3) = ''ABC'' \<and>
   3 \<in> set (ENCBUCKET example_env example_two 7 ''ABC'') \<and>
   enc_matches example_env example_two 7 ''ABC'' 3 \<and>
   pefs_dircache_enclookup example_env example_two 7 ''ABC'' = Some 4"
proof -
  define s0 where "s0 = example_inserted\<lparr>pde_mem := (pde_mem example_inserted)(4 :=
        entry_init example_env 7 example_tkey ''bar'' ''ABC'')\<rparr>"
  define l where "l = dir_link s0 7 4"
  have e: "example_two = hash_link l 7 4"
    by (simp add: example_two_def l_def s0_def)
  have f0: "pd_mem s0 = pd_mem example_inserted" "pdp_mem s0 = pdp_mem example_inserted"
    "dircache_hashmask s0 = dircache_hashmask example_inserted"
    "pde_mem s0 3 = pde_mem example_inserted 3"
    "pde_mem s0 4 = entry_init example_env 7 example_tkey ''bar'' ''ABC''"
    "owned s0 7 = owned example_inserted 7"
    by (simp_all add: s0_def owned_def)
  have fl: "pdp_mem l = pdp_mem example_inserted" "pd_pool (pd_mem l 7) = 1"
    "dircache_hashmask l = dircache_hashmask example_inserted"
    "pde_encnamehash (pde_mem l 4) = dircache_hashname example_env 7 ''ABC''"
    "pde_dircache (pde_mem l 4) = 7" "pde_encnamelen (pde_mem l 4) = 3"
    "pde_encname (pde_mem l 4) = ''ABC''"
    "pde_encnamehash (pde_mem l 3) = dircache_hashname example_env 7 ''ABC''"
    "pde_dircache (pde_mem l 3) = 7" "pde_encnamelen (pde_mem l 3) = 3"
    "pde_encname (pde_mem l 3) = ''ABC''"
    "owned l 7 = insert 4 (owned example_inserted 7)"
    by (simp_all add: l_def dir_link_frame f0 example_inserted_cache example_inserted_entry
        entry_init_def)
  have pk: "pool_ok l (pdp_mem l (pd_pool (pd_mem l 7)))"
    using example_inserted_inv
    by (simp add: fl cache_inv_def pool_ok_def example_inserted_cache)
  have "ENCBUCKET example_env example_two 7 ''ABC'' =
        pdp_enctbl (pdp_mem (hash_link l 7 4) (pd_pool (pd_mem l 7))) !
          DIRCACHE_TBL l (pde_encnamehash (pde_mem l 4))"
    by (simp add: ENCBUCKET_def e hash_link_frame fl
        DIRCACHE_TBL_cong [OF hash_link_frame(3)])
  also have "\<dots> = 4 # pdp_enctbl (pdp_mem l (pd_pool (pd_mem l 7))) !
          DIRCACHE_TBL l (pde_encnamehash (pde_mem l 4))"
    by (rule hash_link_buckets(2) [OF pk])
  also have "\<dots> = 4 # ENCBUCKET example_env example_inserted 7 ''ABC''"
    by (simp add: fl ENCBUCKET_def example_inserted_cache DIRCACHE_TBL_cong [OF fl(3)])
  finally have b: "ENCBUCKET example_env example_two 7 ''ABC'' = [4, 3]"
    by (simp add: example_inserted_encbucket)
  have m4: "enc_matches example_env example_two 7 ''ABC'' 4"
    by (simp add: enc_matches_def e hash_link_frame fl)
  have m3: "enc_matches example_env example_two 7 ''ABC'' 3"
    by (simp add: enc_matches_def e hash_link_frame fl)
  have l: "pefs_dircache_enclookup example_env example_two 7 ''ABC'' = Some 4"
    by (simp add: enclookup_find b m4)
  have o: "3 \<in> owned example_two 7"
    by (simp add: e hash_link_frame fl example_inserted_facts)
  have n: "pde_encname (pde_mem example_two 3) = ''ABC''"
    by (simp add: e hash_link_frame fl)
  from example_two_insert o n b m3 l show ?thesis by simp
qed

text \<open>The cache with the two entries is well formed and its entries are linked in their buckets.\<close>

lemma example_two_wellformed:
  "cache_inv example_two 7" "enc_linked example_env example_two 7"
proof -
  have ok: "op_ok example_env example_inserted 7 (Insert 4 example_tkey ''bar'' ''ABC'')"
    using example_new_entry_fresh [of example_inserted]
    by (simp add: example_inserted_facts example_inserted_cache)
  then have fr: "fresh_entry example_inserted 7 4" by simp
  from ok have "ptk_key example_tkey \<noteq> NULL" "0 < length ''bar''"
    "length ''bar'' < sizeof_pde_name example_env" "0 < length ''ABC''"
    "length ''ABC'' < sizeof_pde_encname example_env"
    by simp_all
  from insert_inv [OF example_inserted_inv fr this]
  show "cache_inv example_two 7" by (simp add: example_two_insert)
  from enc_linked_insert [OF example_inserted_inv example_inserted_linked fr example_two_insert]
  show "enc_linked example_env example_two 7" .
qed

end
